theory Spec2Isabelle
  imports Complex_Main "HOL-Library.Multiset"
begin

section \<open>Clips (Source/Core/Midi/Patterns/Clip.cpp)\<close>

text \<open>
  A clip holds a weak reference to its owning pattern, a start beat and an id.
  The reference is a handle (\<open>None\<close> for a null reference). Beats are C++ floats in the
  source; the model takes them as the rationals they denote, so it speaks about finite
  beats only, and it rounds to a float where the source does (\<open>float_cast\<close> below).
\<close>

record Clip =
  pattern :: "nat option"
  startBeat :: rat
  id' :: string

text \<open>
  \<open>Clip::compareElements(const Clip &first, const Clip &second)\<close>. The first test of
  the source compares the addresses of the two arguments; one object has one id, so that
  case is contained in the test on the ids.
\<close>

definition compareElements :: "Clip \<Rightarrow> Clip \<Rightarrow> int" where
  "compareElements first second =
     (if id' first = id' second then 0
      else
        let diff = startBeat first - startBeat second;
            diffResult = (if diff > 0 then 1 else 0) - (if diff < 0 then 1 else 0)
        in diffResult)"

text \<open>
  The narrowing of a number to a C++ \<open>float\<close> (IEEE binary32, round to nearest, ties to
  even): the conversion \<open>float(x)\<close> of a double, and the rounding of the result of every
  float operation. \<open>bitLength\<close> is the number of binary digits of a natural number,
  \<open>float_exponent\<close> the binary exponent of the number (not below the exponent of the
  subnormal floats), and the number is rounded to a multiple of the unit in the last of its
  24 binary places. Numbers beyond the largest float, which C++ turns into infinities, are
  outside the model.
\<close>

fun bitLength :: "nat \<Rightarrow> nat" where
  "bitLength n = (if n = 0 then 0 else Suc (bitLength (n div 2)))"

declare bitLength.simps [simp del]

definition float_exponent :: "rat \<Rightarrow> int" where
  "float_exponent x =
     max (- 126)
       (if 1 \<le> \<bar>x\<bar> then int (bitLength (nat \<lfloor>\<bar>x\<bar>\<rfloor>)) - 1
        else - int (bitLength (nat (\<lceil>1 / \<bar>x\<bar>\<rceil> - 1))))"

definition roundToEven :: "rat \<Rightarrow> int" where
  "roundToEven y =
     (let f = \<lfloor>y\<rfloor>; d = y - rat_of_int f
      in if d < 1 / 2 then f else if 1 / 2 < d then f + 1 else if even f then f else f + 1)"

definition float_cast :: "rat \<Rightarrow> rat" where
  "float_cast x =
     (if x = 0 then 0
      else
        let e = float_exponent x;
            ulp = (if 23 \<le> e then 2 ^ nat (e - 23) else 1 / 2 ^ nat (23 - e))
        in rat_of_int (roundToEven (x / ulp)) * ulp)"

text \<open>The C function \<open>roundf\<close>: the nearest integer, halves away from zero.\<close>

definition roundf :: "rat \<Rightarrow> int" where
  "roundf x = (if 0 \<le> x then \<lfloor>x + 1 / 2\<rfloor> else - \<lfloor>- x + 1 / 2\<rfloor>)"

text \<open>
  Modelled from the spec: the macro roundBeat, of the project's common header, is
  missing; the spec says that a beat is rounded to a fixed sub-beat resolution (a
  quantization grid). \<open>ticks\<close> is the number of grid steps in one beat, and the nearest
  step is taken.
\<close>

definition roundBeat :: "nat \<Rightarrow> rat \<Rightarrow> rat" where
  "roundBeat ticks b = rat_of_int (roundf (b * rat_of_nat ticks)) / rat_of_nat ticks"

text \<open>
  \<open>Clip::createId\<close> asks the owning pattern for a fresh id and answers the empty id
  without an owner. \<open>Pattern::createUniqueClipId\<close> is not part of the sources at hand and
  is the parameter \<open>createUniqueClipId\<close>.
\<close>

definition createId :: "(nat \<Rightarrow> string) \<Rightarrow> Clip \<Rightarrow> string" where
  "createId createUniqueClipId c =
     (case pattern c of Some p \<Rightarrow> createUniqueClipId p | None \<Rightarrow> [])"

text \<open>The constructors \<open>Clip(owner, beatVal)\<close> and \<open>Clip(owner, parametersToCopy)\<close>.\<close>

definition Clip_fromBeat :: "nat \<Rightarrow> (nat \<Rightarrow> string) \<Rightarrow> nat option \<Rightarrow> rat \<Rightarrow> Clip" where
  "Clip_fromBeat ticks createUniqueClipId owner beatVal =
     (let c = \<lparr>pattern = owner, startBeat = roundBeat ticks beatVal, id' = []\<rparr>
      in c\<lparr>id' := createId createUniqueClipId c\<rparr>)"

definition Clip_fromParameters :: "nat option \<Rightarrow> Clip \<Rightarrow> Clip" where
  "Clip_fromParameters owner parametersToCopy =
     \<lparr>pattern = owner, startBeat = startBeat parametersToCopy, id' = id' parametersToCopy\<rparr>"

definition copyWithNewId :: "(nat \<Rightarrow> string) \<Rightarrow> Clip \<Rightarrow> nat option \<Rightarrow> Clip" where
  "copyWithNewId createUniqueClipId this newOwner =
     (let c = (case newOwner of Some p \<Rightarrow> this\<lparr>pattern := Some p\<rparr> | None \<Rightarrow> this)
      in c\<lparr>id' := createId createUniqueClipId c\<rparr>)"

text \<open>\<open>Clip::withDeltaBeat\<close> adds the two floats, which rounds the sum to a float, and
  rounds the sum to the grid.\<close>

definition withDeltaBeat :: "nat \<Rightarrow> Clip \<Rightarrow> rat \<Rightarrow> Clip" where
  "withDeltaBeat ticks this deltaPosition =
     this\<lparr>startBeat := roundBeat ticks (float_cast (startBeat this + deltaPosition))\<rparr>"

text \<open>
  \<open>Clip::applyChanges\<close> takes the start beat of the other clip as it is. Its
  \<open>jassert(this->id == other.id)\<close> only reports in a debug build and changes nothing;
  \<open>applyChanges_jassert\<close> is the asserted condition.
\<close>

definition applyChanges_jassert :: "Clip \<Rightarrow> Clip \<Rightarrow> bool" where
  "applyChanges_jassert this other = (id' this = id' other)"

definition applyChanges :: "Clip \<Rightarrow> Clip \<Rightarrow> Clip" where
  "applyChanges this other = this\<lparr>startBeat := startBeat other\<rparr>"

definition Clip_reset :: "Clip \<Rightarrow> Clip" where
  "Clip_reset this = this\<lparr>startBeat := 0\<rparr>"

subsection \<open>The persisted record of a clip\<close>

text \<open>
  An XML element has a tag name, attributes (name and text, in the order they were set)
  and child elements. JUCE writes a number into an attribute as text and reads it back by
  parsing the text; the two conversions are the parameters \<open>toText\<close> (the text of a
  double) and \<open>getDoubleValue\<close> (the double a text denotes), since printing and parsing
  of floating-point numbers are outside the model.
\<close>

datatype XmlElement = XmlElement (tagName: string) (attributes: "(string \<times> string) list")
  (childElements: "XmlElement list")

definition setAttribute :: "string \<Rightarrow> string \<Rightarrow> XmlElement \<Rightarrow> XmlElement" where
  "setAttribute name val xml =
     (if name \<in> fst ` set (attributes xml)
      then XmlElement (tagName xml)
             (map (\<lambda>(n, v). if n = name then (n, val) else (n, v)) (attributes xml))
             (childElements xml)
      else XmlElement (tagName xml) (attributes xml @ [(name, val)]) (childElements xml))"

definition getStringAttribute :: "XmlElement \<Rightarrow> string \<Rightarrow> string \<Rightarrow> string" where
  "getStringAttribute xml name defaultReturnValue =
     (case map_of (attributes xml) name of Some v \<Rightarrow> v | None \<Rightarrow> defaultReturnValue)"

definition getDoubleAttribute :: "(string \<Rightarrow> rat) \<Rightarrow> XmlElement \<Rightarrow> string \<Rightarrow> rat \<Rightarrow> rat" where
  "getDoubleAttribute getDoubleValue xml name defaultReturnValue =
     (case map_of (attributes xml) name of
        Some v \<Rightarrow> getDoubleValue v
      | None \<Rightarrow> defaultReturnValue)"

definition prependChildElement :: "XmlElement \<Rightarrow> XmlElement \<Rightarrow> XmlElement" where
  "prependChildElement child xml =
     XmlElement (tagName xml) (attributes xml) (child # childElements xml)"

text \<open>The tag names are constants of \<open>SerializationKeys.h\<close>; only their being different
  names matters.\<close>

definition Serialization_Core_clip :: string where
  "Serialization_Core_clip = ''clip''"

definition Clip_serialize :: "(rat \<Rightarrow> string) \<Rightarrow> Clip \<Rightarrow> XmlElement" where
  "Clip_serialize toText this =
     setAttribute ''id'' (id' this)
       (setAttribute ''start'' (toText (startBeat this))
          (XmlElement Serialization_Core_clip [] []))"

text \<open>\<open>Clip::deserialize\<close> narrows the double of the attribute \<open>start\<close> to a float and
  stores it.\<close>

definition Clip_deserialize :: "(string \<Rightarrow> rat) \<Rightarrow> XmlElement \<Rightarrow> Clip \<Rightarrow> Clip" where
  "Clip_deserialize getDoubleValue xml this =
     this\<lparr>startBeat :=
            float_cast (getDoubleAttribute getDoubleValue xml ''start'' (startBeat this)),
          id' := getStringAttribute xml ''id'' (id' this)\<rparr>"

definition withParameters :: "(string \<Rightarrow> rat) \<Rightarrow> Clip \<Rightarrow> XmlElement \<Rightarrow> Clip" where
  "withParameters getDoubleValue this xml = Clip_deserialize getDoubleValue xml this"

section \<open>Sorted arrays of JUCE\<close>

text \<open>
  The sequence keeps its events in a JUCE \<open>OwnedArray\<close> and reaches it through
  \<open>addSorted\<close>, \<open>indexOfSorted\<close>, \<open>add\<close> and \<open>remove\<close>. The array is a list here;
  the two searches are the library's own loops, a binary chop steered by the comparator
  that the caller hands over (a result below 0, 0 or above 0). Indices are C++ \<open>int\<close>s
  that never leave the range of the array, and natural numbers here; the answer -1 of
  \<open>indexOfSorted\<close> is \<open>None\<close>.
\<close>

function findInsertIndexInSortedArray ::
  "('a \<Rightarrow> 'a \<Rightarrow> int) \<Rightarrow> 'a list \<Rightarrow> 'a \<Rightarrow> nat \<Rightarrow> nat \<Rightarrow> nat" where
  "findInsertIndexInSortedArray comparator array newElement firstElement lastElement =
     (if firstElement < lastElement then
        (if comparator newElement (array ! firstElement) = 0 then firstElement + 1
         else
           let halfway = (firstElement + lastElement) div 2 in
           if halfway = firstElement then
             (if comparator newElement (array ! halfway) \<ge> 0 then firstElement + 1
              else firstElement)
           else if comparator newElement (array ! halfway) \<ge> 0 then
             findInsertIndexInSortedArray comparator array newElement halfway lastElement
           else
             findInsertIndexInSortedArray comparator array newElement firstElement halfway)
      else firstElement)"
  by pat_completeness auto
termination
  by (relation "measure (\<lambda>(comparator, array, newElement, firstElement, lastElement).
        lastElement - firstElement)") auto

declare findInsertIndexInSortedArray.simps [simp del]

definition insertAt :: "nat \<Rightarrow> 'a \<Rightarrow> 'a list \<Rightarrow> 'a list" where
  "insertAt indexToInsertAt newObject array =
     (if indexToInsertAt \<le> length array
      then take indexToInsertAt array @ newObject # drop indexToInsertAt array
      else array @ [newObject])"

definition addSorted :: "('a \<Rightarrow> 'a \<Rightarrow> int) \<Rightarrow> 'a \<Rightarrow> 'a list \<Rightarrow> 'a list" where
  "addSorted comparator newObject array =
     insertAt (findInsertIndexInSortedArray comparator array newObject 0 (length array))
       newObject array"

function indexOfSorted_loop ::
  "('a \<Rightarrow> 'a \<Rightarrow> int) \<Rightarrow> 'a list \<Rightarrow> 'a \<Rightarrow> nat \<Rightarrow> nat \<Rightarrow> nat option" where
  "indexOfSorted_loop comparator array objectToLookFor s e =
     (if s < e then
        (if comparator objectToLookFor (array ! s) = 0 then Some s
         else
           let halfway = (s + e) div 2 in
           if halfway = s then None
           else if comparator objectToLookFor (array ! halfway) \<ge> 0 then
             indexOfSorted_loop comparator array objectToLookFor halfway e
           else
             indexOfSorted_loop comparator array objectToLookFor s halfway)
      else None)"
  by pat_completeness auto
termination
  by (relation "measure (\<lambda>(comparator, array, objectToLookFor, s, e). e - s)") auto

declare indexOfSorted_loop.simps [simp del]

definition indexOfSorted :: "('a \<Rightarrow> 'a \<Rightarrow> int) \<Rightarrow> 'a \<Rightarrow> 'a list \<Rightarrow> nat option" where
  "indexOfSorted comparator objectToLookFor array =
     indexOfSorted_loop comparator array objectToLookFor 0 (length array)"

definition removeAt :: "nat \<Rightarrow> 'a list \<Rightarrow> 'a list" where
  "removeAt indexToRemove array = take indexToRemove array @ drop (Suc indexToRemove) array"

section \<open>Time signature events\<close>

text \<open>
  The class \<open>TimeSignatureEvent\<close> is not part of the sources at hand; the sequence
  builds one from a beat, a numerator and a denominator, and reads its id and its beat.
\<close>

record TimeSignatureEvent =
  eventId :: string
  beat :: rat
  numerator :: int
  denominator :: int

text \<open>
  Modelled from the spec: the comparator of TimeSignatureEvent is missing; the spec says
  that two events are the same when their ids match, whatever their position, and that
  the comparator is otherwise the beat difference, equal beats comparing as equal. That is
  the rule \<open>Clip::compareElements\<close> follows.
\<close>

definition TimeSignatureEvent_compareElements ::
  "TimeSignatureEvent \<Rightarrow> TimeSignatureEvent \<Rightarrow> int" where
  "TimeSignatureEvent_compareElements first second =
     (if eventId first = eventId second then 0
      else
        let diff = beat first - beat second;
            diffResult = (if diff > 0 then 1 else 0) - (if diff < 0 then 1 else 0)
        in diffResult)"

text \<open>
  Modelled from the spec: applyChanges of TimeSignatureEvent is missing; the spec says
  that a change applies the new values in place, to the same object, and
  \<open>Clip::applyChanges\<close> shows the shape: the position and the payload are taken over,
  the id stays.
\<close>

definition TimeSignatureEvent_applyChanges ::
  "TimeSignatureEvent \<Rightarrow> TimeSignatureEvent \<Rightarrow> TimeSignatureEvent" where
  "TimeSignatureEvent_applyChanges this parameters =
     this\<lparr>beat := beat parameters, numerator := numerator parameters,
          denominator := denominator parameters\<rparr>"

section \<open>The sequence of time signatures (TimeSignaturesSequence.cpp)\<close>

text \<open>
  The state of a sequence is its array of events and its set of used ids. What the
  sequence does to the outside are calls into its base class and its listeners, none of
  them part of the sources at hand: the notifications, \<open>updateBeatRange\<close>,
  \<open>invalidateSequenceCache\<close>, the two calls to the undo stack, and a failed
  \<open>jassert\<close>, which reports and goes on. The model writes each call into a trace,
  together with the array as it is at the moment of the call, which is what a listener
  called at that moment finds.
\<close>

datatype call =
    EventAdded TimeSignatureEvent
  | EventRemoved TimeSignatureEvent
  | EventRemovedPostAction
  | EventChanged TimeSignatureEvent TimeSignatureEvent
  | UpdateBeatRange bool
  | InvalidateSequenceCache
  | ClearUndoHistory
  | Checkpoint
  | JAssertFalse

record sequence =
  midiEvents :: "TimeSignatureEvent list"
  usedEventIds :: "string set"
  trace :: "(call \<times> TimeSignatureEvent list) list"

definition emit :: "call \<Rightarrow> sequence \<Rightarrow> sequence" where
  "emit c this = this\<lparr>trace := trace this @ [(c, midiEvents this)]\<rparr>"

definition reset :: "sequence \<Rightarrow> sequence" where
  "reset this = emit InvalidateSequenceCache (this\<lparr>midiEvents := [], usedEventIds := {}\<rparr>)"

definition silentImport :: "TimeSignatureEvent \<Rightarrow> sequence \<Rightarrow> sequence" where
  "silentImport signature this =
     (if eventId signature \<in> usedEventIds this then emit JAssertFalse this
      else
        let s1 = this\<lparr>midiEvents :=
                   addSorted TimeSignatureEvent_compareElements signature (midiEvents this)\<rparr>;
            s2 = s1\<lparr>usedEventIds := insert (eventId signature) (usedEventIds s1)\<rparr>
        in emit InvalidateSequenceCache (emit (UpdateBeatRange False) s2))"

text \<open>
  A message of the MIDI file, as far as \<open>importMidi\<close> reads it. The constructor
  \<open>TimeSignatureEvent(this, beat, numerator, denominator)\<close>, which also draws the new id
  from the sequence, and the constant \<open>MIDI_IMPORT_SCALE\<close> are not part of the sources at
  hand; they are the parameters \<open>newEvent\<close> and \<open>importScale\<close>. The source divides in
  double precision and narrows the quotient to a float before it calls the constructor;
  \<open>newEvent\<close> is handed the quotient and stands for the two roundings followed by the
  constructor.
\<close>

record MidiMessage =
  isTimeSignatureMetaEvent :: bool
  getTimeSignatureInfo :: "int \<times> int"
  getTimeStamp :: rat

primrec importMidi_loop ::
  "(sequence \<Rightarrow> rat \<Rightarrow> int \<Rightarrow> int \<Rightarrow> TimeSignatureEvent) \<Rightarrow> rat \<Rightarrow> MidiMessage list \<Rightarrow>
   sequence \<Rightarrow> sequence" where
  "importMidi_loop newEvent importScale [] this = this"
| "importMidi_loop newEvent importScale (message # rest) this =
     importMidi_loop newEvent importScale rest
       (if isTimeSignatureMetaEvent message then
          let startTimestamp = getTimeStamp message / importScale;
              signature = newEvent this startTimestamp (fst (getTimeSignatureInfo message))
                            (snd (getTimeSignatureInfo message))
          in silentImport signature this
        else this)"

definition importMidi ::
  "(sequence \<Rightarrow> rat \<Rightarrow> int \<Rightarrow> int \<Rightarrow> TimeSignatureEvent) \<Rightarrow> rat \<Rightarrow> MidiMessage list \<Rightarrow>
   sequence \<Rightarrow> sequence" where
  "importMidi newEvent importScale midi this =
     emit InvalidateSequenceCache (emit (UpdateBeatRange False)
       (importMidi_loop newEvent importScale midi
          (reset (emit Checkpoint (emit ClearUndoHistory this)))))"

text \<open>
  The editing functions take a flag \<open>undoable\<close>. With the flag set they wrap the request
  into an action and hand it to the undo stack, which is not part of the sources at hand;
  the definitions below are the branches for \<open>undoable = false\<close>, the ones the actions
  call. \<open>insert\<close> answers the stored copy.
\<close>

definition insert_event :: "TimeSignatureEvent \<Rightarrow> sequence \<Rightarrow> TimeSignatureEvent \<times> sequence" where
  "insert_event eventParams this =
     (let ownedEvent = eventParams;
          s1 = this\<lparr>midiEvents :=
                 addSorted TimeSignatureEvent_compareElements ownedEvent (midiEvents this)\<rparr>;
          s2 = emit (EventAdded ownedEvent) s1;
          s3 = emit (UpdateBeatRange True) s2
      in (ownedEvent, s3))"

definition remove_event :: "TimeSignatureEvent \<Rightarrow> sequence \<Rightarrow> bool \<times> sequence" where
  "remove_event signature this =
     (case indexOfSorted TimeSignatureEvent_compareElements signature (midiEvents this) of
        Some index \<Rightarrow>
          let removedEvent = midiEvents this ! index;
              s1 = emit (EventRemoved removedEvent) this;
              s2 = s1\<lparr>midiEvents := removeAt index (midiEvents s1)\<rparr>;
              s3 = emit (UpdateBeatRange True) s2;
              s4 = emit EventRemovedPostAction s3
          in (True, s4)
      | None \<Rightarrow> (False, this))"

definition change_event ::
  "TimeSignatureEvent \<Rightarrow> TimeSignatureEvent \<Rightarrow> sequence \<Rightarrow> bool \<times> sequence" where
  "change_event oldParams newParams this =
     (case indexOfSorted TimeSignatureEvent_compareElements oldParams (midiEvents this) of
        Some index \<Rightarrow>
          let changedEvent = TimeSignatureEvent_applyChanges (midiEvents this ! index) newParams;
              s1 = this\<lparr>midiEvents := removeAt index (midiEvents this)\<rparr>;
              s2 = s1\<lparr>midiEvents :=
                     addSorted TimeSignatureEvent_compareElements changedEvent (midiEvents s1)\<rparr>;
              s3 = emit (EventChanged oldParams changedEvent) s2;
              s4 = emit (UpdateBeatRange True) s3
          in (True, s4)
      | None \<Rightarrow> (False, this))"

text \<open>The grouped functions: one loop over the list, then the calls that close the batch.\<close>

primrec insertGroup_loop :: "TimeSignatureEvent list \<Rightarrow> sequence \<Rightarrow> sequence" where
  "insertGroup_loop [] this = this"
| "insertGroup_loop (eventParams # rest) this =
     insertGroup_loop rest
       (let ownedEvent = eventParams;
            s1 = this\<lparr>midiEvents :=
                   addSorted TimeSignatureEvent_compareElements ownedEvent (midiEvents this)\<rparr>
        in emit (EventAdded ownedEvent) s1)"

definition insertGroup :: "TimeSignatureEvent list \<Rightarrow> sequence \<Rightarrow> bool \<times> sequence" where
  "insertGroup signatures this =
     (True, emit (UpdateBeatRange True) (insertGroup_loop signatures this))"

primrec removeGroup_loop :: "TimeSignatureEvent list \<Rightarrow> sequence \<Rightarrow> sequence" where
  "removeGroup_loop [] this = this"
| "removeGroup_loop (signature # rest) this =
     removeGroup_loop rest
       (case indexOfSorted TimeSignatureEvent_compareElements signature (midiEvents this) of
          Some index \<Rightarrow>
            let removedSignature = midiEvents this ! index;
                s1 = emit (EventRemoved removedSignature) this
            in s1\<lparr>midiEvents := removeAt index (midiEvents s1)\<rparr>
        | None \<Rightarrow> this)"

definition removeGroup :: "TimeSignatureEvent list \<Rightarrow> sequence \<Rightarrow> bool \<times> sequence" where
  "removeGroup signatures this =
     (True, emit EventRemovedPostAction (emit (UpdateBeatRange True)
              (removeGroup_loop signatures this)))"

text \<open>
  \<open>changeGroup\<close> walks \<open>groupBefore\<close> by index and reads \<open>groupAfter\<close> at the same
  index with \<open>getUnchecked\<close>. Where \<open>groupAfter\<close> is the shorter list that read is
  outside the array and the C++ has no defined behaviour: the model answers \<open>None\<close>. The
  \<open>jassert\<close> on the two sizes reports and goes on.
\<close>

fun changeGroup_loop ::
  "TimeSignatureEvent list \<Rightarrow> TimeSignatureEvent list \<Rightarrow> sequence \<Rightarrow> sequence option" where
  "changeGroup_loop [] groupAfter this = Some this"
| "changeGroup_loop (oldParams # restBefore) [] this = None"
| "changeGroup_loop (oldParams # restBefore) (newParams # restAfter) this =
     changeGroup_loop restBefore restAfter
       (case indexOfSorted TimeSignatureEvent_compareElements oldParams (midiEvents this) of
          Some index \<Rightarrow>
            let changedEvent =
                  TimeSignatureEvent_applyChanges (midiEvents this ! index) newParams;
                s1 = this\<lparr>midiEvents := removeAt index (midiEvents this)\<rparr>;
                s2 = s1\<lparr>midiEvents :=
                       addSorted TimeSignatureEvent_compareElements changedEvent (midiEvents s1)\<rparr>
            in emit (EventChanged oldParams changedEvent) s2
        | None \<Rightarrow> this)"

definition changeGroup ::
  "TimeSignatureEvent list \<Rightarrow> TimeSignatureEvent list \<Rightarrow> sequence \<Rightarrow>
   (bool \<times> sequence) option" where
  "changeGroup groupBefore groupAfter this =
     (let s0 = (if length groupBefore = length groupAfter then this else emit JAssertFalse this)
      in case changeGroup_loop groupBefore groupAfter s0 of
           Some s1 \<Rightarrow> Some (True, emit (UpdateBeatRange True) s1)
         | None \<Rightarrow> None)"

subsection \<open>Serialization\<close>

text \<open>
  \<open>serialize\<close> asks every event for its own record and puts it in front of the
  children written so far. \<open>deserialize\<close> empties the sequence, looks for the root
  element, reads every child of the event's tag into a new event, appends it unsorted,
  registers its id, and sorts once at the end. The record of one event is written and read
  by \<open>TimeSignatureEvent::serialize\<close> and \<open>deserialize\<close>, which are not part of the
  sources at hand: they are the parameters \<open>serializeEvent\<close> and \<open>deserializeEvent\<close>
  (the latter stands for \<open>new TimeSignatureEvent(this)\<close> followed by \<open>deserialize\<close>).
  The running \<open>firstBeat\<close> and \<open>lastBeat\<close> of the source are local variables that
  nothing reads, and are left out.
\<close>

definition Serialization_Core_timeSignatures :: string where
  "Serialization_Core_timeSignatures = ''timeSignatures''"

definition Serialization_Core_timeSignature :: string where
  "Serialization_Core_timeSignature = ''timeSignature''"

definition serialize :: "(TimeSignatureEvent \<Rightarrow> XmlElement) \<Rightarrow> sequence \<Rightarrow> XmlElement" where
  "serialize serializeEvent this =
     fold (\<lambda>event xml. prependChildElement (serializeEvent event) xml) (midiEvents this)
       (XmlElement Serialization_Core_timeSignatures [] [])"

definition getChildByName :: "XmlElement \<Rightarrow> string \<Rightarrow> XmlElement option" where
  "getChildByName xml name = find (\<lambda>child. tagName child = name) (childElements xml)"

text \<open>
  Modelled from the spec: MidiSequence::sort is missing; the spec says that the events are
  kept sorted by beat ascending and that the sort is stable, events on one beat keeping
  their order.
\<close>

definition sort_events :: "sequence \<Rightarrow> sequence" where
  "sort_events this = this\<lparr>midiEvents := sort_key beat (midiEvents this)\<rparr>"

primrec deserialize_loop ::
  "(sequence \<Rightarrow> XmlElement \<Rightarrow> TimeSignatureEvent) \<Rightarrow> XmlElement list \<Rightarrow> sequence \<Rightarrow> sequence"
  where
  "deserialize_loop deserializeEvent [] this = this"
| "deserialize_loop deserializeEvent (e # rest) this =
     deserialize_loop deserializeEvent rest
       (if tagName e = Serialization_Core_timeSignature then
          let signature = deserializeEvent this e;
              s1 = this\<lparr>midiEvents := midiEvents this @ [signature]\<rparr>
          in s1\<lparr>usedEventIds := insert (eventId signature) (usedEventIds s1)\<rparr>
        else this)"

definition deserialize ::
  "(sequence \<Rightarrow> XmlElement \<Rightarrow> TimeSignatureEvent) \<Rightarrow> XmlElement \<Rightarrow> sequence \<Rightarrow> sequence" where
  "deserialize deserializeEvent xml this =
     (let s0 = reset this;
          root = (if tagName xml = Serialization_Core_timeSignatures then Some xml
                  else getChildByName xml Serialization_Core_timeSignatures)
      in case root of
           None \<Rightarrow> s0
         | Some r \<Rightarrow>
             emit InvalidateSequenceCache (emit (UpdateBeatRange False)
               (sort_events (deserialize_loop deserializeEvent (childElements r) s0))))"

section \<open>The undo actions of one event\<close>

text \<open>
  Modelled from the spec: the bodies of perform and undo of the insert, remove and change
  actions are missing (the sources at hand hold the declarations of the classes only). The
  spec says: Insert.perform is the sequence's insert, not undoable; Insert.undo is the
  sequence's remove, not undoable, of the same event; Change.perform is the sequence's
  change from before to after and Change.undo the change from after to before; Remove is
  the mirror of Insert. The track id of an action picks the sequence, which is the one
  sequence of the model. The answer of \<open>perform\<close> and \<open>undo\<close> is whether the sequence
  did it.
\<close>

datatype action =
    InsertAction TimeSignatureEvent
  | RemoveAction TimeSignatureEvent
  | ChangeAction TimeSignatureEvent TimeSignatureEvent

fun perform :: "action \<Rightarrow> sequence \<Rightarrow> bool \<times> sequence" where
  "perform (InsertAction event) this = (True, snd (insert_event event this))"
| "perform (RemoveAction event) this = remove_event event this"
| "perform (ChangeAction eventBefore eventAfter) this =
     change_event eventBefore eventAfter this"

fun undo :: "action \<Rightarrow> sequence \<Rightarrow> bool \<times> sequence" where
  "undo (InsertAction event) this = remove_event event this"
| "undo (RemoveAction event) this = (True, snd (insert_event event this))"
| "undo (ChangeAction eventBefore eventAfter) this =
     change_event eventAfter eventBefore this"

subsection \<open>What an import keeps\<close>

text \<open>
  The state that \<open>silentImport\<close> keeps up from an empty sequence on: the array sorted by
  beat, no id twice in it, and every id of the array among the used ids.
\<close>

definition import_invariant :: "sequence \<Rightarrow> bool" where
  "import_invariant s \<longleftrightarrow>
     sorted (map beat (midiEvents s)) \<and> distinct (map eventId (midiEvents s)) \<and>
     eventId ` set (midiEvents s) \<subseteq> usedEventIds s"

subsection \<open>Short forms for examples\<close>

text \<open>An event from its id, beat, numerator and denominator; a sequence from its events
  and its used ids, with an empty trace.\<close>

abbreviation ts :: "string \<Rightarrow> rat \<Rightarrow> int \<Rightarrow> int \<Rightarrow> TimeSignatureEvent" where
  "ts i b n d \<equiv> \<lparr>eventId = i, beat = b, numerator = n, denominator = d\<rparr>"

abbreviation holding :: "TimeSignatureEvent list \<Rightarrow> string set \<Rightarrow> sequence" where
  "holding events ids \<equiv> \<lparr>midiEvents = events, usedEventIds = ids, trace = []\<rparr>"

section \<open>Facts about the two searches\<close>

lemma halfway_between: "(f::nat) < l \<Longrightarrow> f \<le> (f + l) div 2 \<and> (f + l) div 2 < l"
  by presburger

lemma findInsertIndex_bounds:
  "f \<le> l \<Longrightarrow> f \<le> findInsertIndexInSortedArray cmp xs t f l \<and>
     findInsertIndexInSortedArray cmp xs t f l \<le> l"
proof (induction cmp xs t f l rule: findInsertIndexInSortedArray.induct)
  case (1 cmp xs t f l)
  note eq = findInsertIndexInSortedArray.simps [of cmp xs t f l]
  show ?case
  proof (cases "f < l")
    case True
    from halfway_between [OF True] have h: "f \<le> (f + l) div 2" "(f + l) div 2 \<le> l" by simp_all
    with True 1 show ?thesis by (auto simp: eq Let_def)
  next
    case False
    then have "findInsertIndexInSortedArray cmp xs t f l = f" by (simp add: eq)
    then show ?thesis using 1 by simp
  qed
qed

lemma sorted_key_nth_mono:
  "sorted (map key xs) \<Longrightarrow> i \<le> j \<Longrightarrow> j < length xs \<Longrightarrow> key (xs ! i) \<le> key (xs ! j)"
  using sorted_nth_mono [of "map key xs" i j] by simp

lemma findInsertIndex_partition:
  fixes key :: "'a \<Rightarrow> 'k::linorder"
  assumes "sorted (map key xs)"
    and "\<forall>x\<in>set xs. (0 \<le> cmp t x \<longrightarrow> key x \<le> key t) \<and> (cmp t x \<le> 0 \<longrightarrow> key t \<le> key x)"
  shows "l \<le> length xs \<Longrightarrow> f \<le> l \<Longrightarrow> \<forall>i<f. key (xs ! i) \<le> key t \<Longrightarrow>
     \<forall>i. l \<le> i \<and> i < length xs \<longrightarrow> key t \<le> key (xs ! i) \<Longrightarrow>
     (\<forall>i<findInsertIndexInSortedArray cmp xs t f l. key (xs ! i) \<le> key t) \<and>
     (\<forall>i. findInsertIndexInSortedArray cmp xs t f l \<le> i \<and> i < length xs \<longrightarrow> key t \<le> key (xs ! i))"
  using assms
proof (induction cmp xs t f l rule: findInsertIndexInSortedArray.induct)
  case (1 cmp xs t f l)
  note eq = findInsertIndexInSortedArray.simps [of cmp xs t f l]
  note srt = sorted_key_nth_mono [OF "1.prems"(5)]
  have cons: "\<And>i. i < length xs \<Longrightarrow>
      (0 \<le> cmp t (xs ! i) \<longrightarrow> key (xs ! i) \<le> key t) \<and> (cmp t (xs ! i) \<le> 0 \<longrightarrow> key t \<le> key (xs ! i))"
    using "1.prems"(6) by simp
  let ?h = "(f + l) div 2"
  show ?case
  proof (cases "f < l")
    case False
    then have "findInsertIndexInSortedArray cmp xs t f l = f" by (simp add: eq)
    then show ?thesis using "1.prems"(2,3,4) False by simp
  next
    case True
    from halfway_between [OF True] have h: "f \<le> ?h" "?h < l" by simp_all
    have fl: "f < length xs" "?h < length xs" using True h "1.prems"(1) by simp_all
    show ?thesis
    proof (cases "cmp t (xs ! f) = 0")
      case zero: True
      then have k: "findInsertIndexInSortedArray cmp xs t f l = f + 1"
        using True by (simp add: eq)
      have e: "key (xs ! f) = key t" using cons [OF fl(1)] zero by (simp add: order.antisym)
      have "\<forall>i<f + 1. key (xs ! i) \<le> key t"
        using "1.prems"(3) e by (metis Suc_eq_plus1 less_Suc_eq order.refl)
      moreover have "\<forall>i. f + 1 \<le> i \<and> i < length xs \<longrightarrow> key t \<le> key (xs ! i)"
        using srt [of f] e by (metis Suc_eq_plus1 Suc_leD)
      ultimately show ?thesis unfolding k by blast
    next
      case nz: False
      show ?thesis
      proof (cases "?h = f")
        case hf: True
        then have lf: "l = f + 1" using True by presburger
        show ?thesis
        proof (cases "0 \<le> cmp t (xs ! f)")
          case True
          then have k: "findInsertIndexInSortedArray cmp xs t f l = f + 1"
            using \<open>f < l\<close> nz hf by (simp add: eq Let_def)
          have "key (xs ! f) \<le> key t" using cons [OF fl(1)] True by simp
          then have "\<forall>i<f + 1. key (xs ! i) \<le> key t"
            using "1.prems"(3) by (metis Suc_eq_plus1 less_Suc_eq)
          then show ?thesis unfolding k using "1.prems"(4) lf by simp
        next
          case False
          then have k: "findInsertIndexInSortedArray cmp xs t f l = f"
            using \<open>f < l\<close> nz hf by (simp add: eq Let_def)
          have "key t \<le> key (xs ! f)" using cons [OF fl(1)] False by simp
          then have "\<forall>i. f \<le> i \<and> i < length xs \<longrightarrow> key t \<le> key (xs ! i)"
            using srt [of f] by (meson order.trans)
          then show ?thesis unfolding k using "1.prems"(3) by simp
        qed
      next
        case hnf: False
        show ?thesis
        proof (cases "0 \<le> cmp t (xs ! ?h)")
          case True
          then have k: "findInsertIndexInSortedArray cmp xs t f l =
              findInsertIndexInSortedArray cmp xs t ?h l"
            using \<open>f < l\<close> nz hnf by (simp add: eq Let_def)
          have "key (xs ! ?h) \<le> key t" using cons [OF fl(2)] True by simp
          then have lo: "\<forall>i<?h. key (xs ! i) \<le> key t"
            using srt [of _ ?h] fl(2) by (meson less_imp_le order.trans)
          show ?thesis unfolding k
            using "1.IH"(1) [OF \<open>f < l\<close> nz refl hnf True "1.prems"(1) _ lo "1.prems"(4) "1.prems"(5) "1.prems"(6)] h
            by simp
        next
          case False
          then have k: "findInsertIndexInSortedArray cmp xs t f l =
              findInsertIndexInSortedArray cmp xs t f ?h"
            using \<open>f < l\<close> nz hnf by (simp add: eq Let_def)
          have "key t \<le> key (xs ! ?h)" using cons [OF fl(2)] False by simp
          then have hi: "\<forall>i. ?h \<le> i \<and> i < length xs \<longrightarrow> key t \<le> key (xs ! i)"
            using srt [of ?h] by (meson order.trans)
          have hl: "?h \<le> length xs" using fl(2) by simp
          show ?thesis unfolding k
            using "1.IH"(2) [OF \<open>f < l\<close> nz refl hnf False hl h(1) "1.prems"(3) hi "1.prems"(5) "1.prems"(6)]
            by simp
        qed
      qed
    qed
  qed
qed

lemma sorted_insertAt:
  fixes key :: "'a \<Rightarrow> 'k::linorder"
  assumes "sorted (map key xs)" "k \<le> length xs"
    and lo: "\<forall>i<k. key (xs ! i) \<le> key t"
    and hi: "\<forall>i. k \<le> i \<and> i < length xs \<longrightarrow> key t \<le> key (xs ! i)"
  shows "sorted (map key (insertAt k t xs))"
proof -
  have a: "\<forall>x\<in>set (take k xs). key x \<le> key t"
    using lo assms(2) by (auto simp: in_set_conv_nth)
  have b: "\<forall>y\<in>set (drop k xs). key t \<le> key y"
    using hi assms(2) by (auto simp: in_set_conv_nth)
  have c: "sorted (map key (take k xs @ drop k xs))" using assms(1) by simp
  then have d: "sorted (map key (take k xs))" "sorted (map key (drop k xs))"
    "\<forall>x\<in>set (take k xs). \<forall>y\<in>set (drop k xs). key x \<le> key y"
    by (auto simp: sorted_append simp del: append_take_drop_id)
  show ?thesis
    using a b d assms(2) by (auto simp: insertAt_def sorted_append)
qed

lemma sorted_addSorted:
  fixes key :: "'a \<Rightarrow> 'k::linorder"
  assumes "sorted (map key xs)"
    and "\<forall>x\<in>set xs. (0 \<le> cmp t x \<longrightarrow> key x \<le> key t) \<and> (cmp t x \<le> 0 \<longrightarrow> key t \<le> key x)"
  shows "sorted (map key (addSorted cmp t xs))"
proof -
  let ?k = "findInsertIndexInSortedArray cmp xs t 0 (length xs)"
  have k: "?k \<le> length xs" using findInsertIndex_bounds [of 0 "length xs" cmp xs t] by simp
  have p: "(\<forall>i<?k. key (xs ! i) \<le> key t) \<and>
      (\<forall>i. ?k \<le> i \<and> i < length xs \<longrightarrow> key t \<le> key (xs ! i))"
    using findInsertIndex_partition [of key xs cmp t "length xs" 0] assms by simp
  show ?thesis unfolding addSorted_def
    using sorted_insertAt [OF assms(1) k] p by blast
qed

lemma mset_insertAt: "mset (insertAt k t xs) = add_mset t (mset xs)"
proof (cases "k \<le> length xs")
  case True
  have "mset (take k xs @ t # drop k xs) = add_mset t (mset (take k xs @ drop k xs))"
    by (simp del: append_take_drop_id)
  then show ?thesis using True by (simp add: insertAt_def)
next
  case False
  then show ?thesis by (simp add: insertAt_def)
qed

lemma mset_addSorted: "mset (addSorted cmp t xs) = add_mset t (mset xs)"
  by (simp add: addSorted_def mset_insertAt)

lemma set_addSorted: "set (addSorted cmp t xs) = insert t (set xs)"
  using mset_addSorted [of cmp t xs] by (metis set_mset_add_mset_insert set_mset_mset)

lemma length_addSorted: "length (addSorted cmp t xs) = Suc (length xs)"
  using mset_addSorted [of cmp t xs] by (metis size_add_mset size_mset)

lemma mset_removeAt: "i < length xs \<Longrightarrow> mset (removeAt i xs) = mset xs - {#xs ! i#}"
proof -
  assume i: "i < length xs"
  then have "xs = take i xs @ xs ! i # drop (Suc i) xs" by (simp add: id_take_nth_drop)
  then have "mset xs = add_mset (xs ! i) (mset (removeAt i xs))"
    by (metis removeAt_def mset_append mset.simps(2) union_mset_add_mset_right)
  then show ?thesis by simp
qed

lemma mset_removeAt_add: "i < length xs \<Longrightarrow> add_mset (xs ! i) (mset (removeAt i xs)) = mset xs"
  by (simp add: mset_removeAt)

lemma set_removeAt_subset: "set (removeAt i xs) \<subseteq> set xs"
  unfolding removeAt_def by (auto dest: in_set_takeD in_set_dropD)

lemma length_removeAt: "i < length xs \<Longrightarrow> Suc (length (removeAt i xs)) = length xs"
  by (simp add: removeAt_def)

lemma sorted_removeAt:
  fixes key :: "'a \<Rightarrow> 'k::linorder"
  assumes "sorted (map key xs)"
  shows "sorted (map key (removeAt i xs))"
proof -
  have "sorted (map key (take i xs @ drop i xs))" using assms by simp
  then have "sorted (map key (take i xs))" "sorted (map key (drop i xs))"
    "\<forall>x\<in>set (take i xs). \<forall>y\<in>set (drop i xs). key x \<le> key y"
    by (auto simp: sorted_append simp del: append_take_drop_id)
  moreover have "sorted (map key (drop (Suc i) xs))"
    using assms by (metis drop_map sorted_wrt_drop)
  moreover have "set (drop (Suc i) xs) \<subseteq> set (drop i xs)"
    by (metis Suc_n_not_le_n nat_le_linear set_drop_subset_set_drop)
  ultimately show ?thesis
    unfolding removeAt_def by (auto simp: sorted_append)
qed

lemma distinct_map_removeAt: "distinct (map f xs) \<Longrightarrow> distinct (map f (removeAt i xs))"
proof -
  assume d: "distinct (map f xs)"
  have "distinct (map f (take i xs @ drop i xs))" using d by simp
  then have 1: "distinct (map f (take i xs))" "distinct (map f (drop i xs))"
    "f ` set (take i xs) \<inter> f ` set (drop i xs) = {}"
    by (auto simp del: append_take_drop_id)
  have 2: "distinct (map f (drop (Suc i) xs))" using d by (metis distinct_drop drop_map)
  have 3: "set (drop (Suc i) xs) \<subseteq> set (drop i xs)"
    by (metis Suc_n_not_le_n nat_le_linear set_drop_subset_set_drop)
  show ?thesis unfolding removeAt_def using 1 2 3 by auto
qed

lemma halfway_above: "Suc s < e \<Longrightarrow> (s + e) div 2 \<noteq> s"
  by presburger

lemma indexOfSorted_loop_sound:
  "indexOfSorted_loop cmp xs t s e = Some i \<Longrightarrow> s \<le> i \<and> i < e \<and> cmp t (xs ! i) = 0"
proof (induction cmp xs t s e rule: indexOfSorted_loop.induct)
  case (1 cmp xs t s e)
  note eq = indexOfSorted_loop.simps [of cmp xs t s e]
  let ?h = "(s + e) div 2"
  have se: "s < e" using "1.prems" by (simp add: eq split: if_splits)
  from halfway_between [OF se] have h: "s \<le> ?h" "?h < e" by simp_all
  show ?case
  proof (cases "cmp t (xs ! s) = 0")
    case True
    then have "i = s" using "1.prems" se by (simp add: eq)
    then show ?thesis using True se by simp
  next
    case nz: False
    then have hs: "?h \<noteq> s" using "1.prems" se by (auto simp: eq Let_def)
    show ?thesis
    proof (cases "0 \<le> cmp t (xs ! ?h)")
      case True
      then have "indexOfSorted_loop cmp xs t ?h e = Some i"
        using "1.prems" se nz hs by (simp add: eq Let_def)
      from "1.IH"(1) [OF se nz refl hs True this] show ?thesis using h by simp
    next
      case False
      then have "indexOfSorted_loop cmp xs t s ?h = Some i"
        using "1.prems" se nz hs by (simp add: eq Let_def)
      from "1.IH"(2) [OF se nz refl hs False this] show ?thesis using h by simp
    qed
  qed
qed

lemma indexOfSorted_sound:
  "indexOfSorted cmp t xs = Some i \<Longrightarrow> i < length xs \<and> cmp t (xs ! i) = 0"
  unfolding indexOfSorted_def by (drule indexOfSorted_loop_sound) simp

lemma indexOfSorted_loop_complete:
  fixes key :: "'a \<Rightarrow> 'k::linorder"
  assumes "sorted (map key xs)"
    and "\<forall>x\<in>set xs. (0 < cmp t x \<longrightarrow> key x < key t) \<and> (cmp t x < 0 \<longrightarrow> key t < key x) \<and>
           (cmp t x = 0 \<longrightarrow> key x = key t)"
  shows "e \<le> length xs \<Longrightarrow> \<exists>j. s \<le> j \<and> j < e \<and> cmp t (xs ! j) = 0 \<Longrightarrow>
     \<exists>i. indexOfSorted_loop cmp xs t s e = Some i"
  using assms
proof (induction cmp xs t s e rule: indexOfSorted_loop.induct)
  case (1 cmp xs t s e)
  note eq = indexOfSorted_loop.simps [of cmp xs t s e]
  note srt = sorted_key_nth_mono [OF "1.prems"(3)]
  have cons: "\<And>i. i < length xs \<Longrightarrow>
      (0 < cmp t (xs ! i) \<longrightarrow> key (xs ! i) < key t) \<and> (cmp t (xs ! i) < 0 \<longrightarrow> key t < key (xs ! i)) \<and>
      (cmp t (xs ! i) = 0 \<longrightarrow> key (xs ! i) = key t)"
    using "1.prems"(4) by simp
  from "1.prems"(2) obtain j where j: "s \<le> j" "j < e" "cmp t (xs ! j) = 0" by blast
  then have se: "s < e" by simp
  let ?h = "(s + e) div 2"
  from halfway_between [OF se] have h: "s \<le> ?h" "?h < e" by simp_all
  have hl: "?h < length xs" "j < length xs" using h j "1.prems"(1) by simp_all
  have kj: "key (xs ! j) = key t" using cons [OF hl(2)] j(3) by simp
  show ?case
  proof (cases "cmp t (xs ! s) = 0")
    case True
    then show ?thesis using se by (simp add: eq)
  next
    case nz: False
    then have "j \<noteq> s" using j(3) by auto
    then have "Suc s < e" using j(1,2) by simp
    then have hs: "?h \<noteq> s" by (simp add: halfway_above)
    show ?thesis
    proof (cases "0 \<le> cmp t (xs ! ?h)")
      case True
      then have k: "indexOfSorted_loop cmp xs t s e = indexOfSorted_loop cmp xs t ?h e"
        using se nz hs by (simp add: eq Let_def)
      have "\<exists>j'. ?h \<le> j' \<and> j' < e \<and> cmp t (xs ! j') = 0"
      proof (cases "cmp t (xs ! ?h) = 0")
        case True
        then show ?thesis using h(2) by blast
      next
        case False
        then have "key (xs ! ?h) < key t" using True cons [OF hl(1)] by simp
        moreover have "j < ?h \<Longrightarrow> key (xs ! j) \<le> key (xs ! ?h)"
          using srt [of j ?h] hl(1) by simp
        ultimately have "\<not> j < ?h" using kj by auto
        then have "?h \<le> j" by simp
        then show ?thesis using j(2,3) by blast
      qed
      then show ?thesis unfolding k
        using "1.IH"(1) [OF se nz refl hs True "1.prems"(1) _ "1.prems"(3) "1.prems"(4)] by blast
    next
      case False
      then have k: "indexOfSorted_loop cmp xs t s e = indexOfSorted_loop cmp xs t s ?h"
        using se nz hs by (simp add: eq Let_def)
      have "key t < key (xs ! ?h)" using False cons [OF hl(1)] by simp
      moreover have "?h \<le> j \<Longrightarrow> key (xs ! ?h) \<le> key (xs ! j)"
        using srt [of ?h j] hl(2) by simp
      ultimately have "j < ?h" using kj by (cases "j < ?h") auto
      then have ex: "\<exists>j'. s \<le> j' \<and> j' < ?h \<and> cmp t (xs ! j') = 0" using j by blast
      have hle: "?h \<le> length xs" using hl(1) by simp
      show ?thesis unfolding k
        using "1.IH"(2) [OF se nz refl hs False hle ex "1.prems"(3) "1.prems"(4)] by blast
    qed
  qed
qed

lemma indexOfSorted_complete:
  fixes key :: "'a \<Rightarrow> 'k::linorder"
  assumes "sorted (map key xs)"
    and "\<forall>x\<in>set xs. (0 < cmp t x \<longrightarrow> key x < key t) \<and> (cmp t x < 0 \<longrightarrow> key t < key x) \<and>
           (cmp t x = 0 \<longrightarrow> key x = key t)"
    and "\<exists>x\<in>set xs. cmp t x = 0"
  shows "\<exists>i. indexOfSorted cmp t xs = Some i"
proof -
  from assms(3) obtain j where "j < length xs" "cmp t (xs ! j) = 0"
    by (auto simp: in_set_conv_nth)
  then have "\<exists>j. 0 \<le> j \<and> j < length xs \<and> cmp t (xs ! j) = 0" by blast
  then show ?thesis unfolding indexOfSorted_def
    using indexOfSorted_loop_complete [of key xs cmp t "length xs" 0] assms(1,2) by simp
qed

lemma compare_zero_iff:
  "TimeSignatureEvent_compareElements t x = 0 \<longleftrightarrow> eventId t = eventId x \<or> beat t = beat x"
  by (simp add: TimeSignatureEvent_compareElements_def Let_def)

lemma compare_weak:
  assumes "\<forall>x\<in>set xs. eventId x = eventId t \<longrightarrow> beat x = beat t"
  shows "\<forall>x\<in>set xs.
     (0 \<le> TimeSignatureEvent_compareElements t x \<longrightarrow> beat x \<le> beat t) \<and>
     (TimeSignatureEvent_compareElements t x \<le> 0 \<longrightarrow> beat t \<le> beat x)"
  using assms by (auto simp: TimeSignatureEvent_compareElements_def Let_def split: if_splits)

lemma compare_strict:
  assumes "\<forall>x\<in>set xs. eventId x = eventId t \<longrightarrow> beat x = beat t"
  shows "\<forall>x\<in>set xs.
     (0 < TimeSignatureEvent_compareElements t x \<longrightarrow> beat x < beat t) \<and>
     (TimeSignatureEvent_compareElements t x < 0 \<longrightarrow> beat t < beat x) \<and>
     (TimeSignatureEvent_compareElements t x = 0 \<longrightarrow> beat x = beat t)"
  using assms by (auto simp: TimeSignatureEvent_compareElements_def Let_def split: if_splits)

lemma sorted_addSorted_event:
  assumes "sorted (map beat xs)"
    and "\<forall>x\<in>set xs. eventId x = eventId t \<longrightarrow> beat x = beat t"
  shows "sorted (map beat (addSorted TimeSignatureEvent_compareElements t xs))"
  using sorted_addSorted [of beat xs TimeSignatureEvent_compareElements t]
    assms(1) compare_weak [OF assms(2)] by blast

lemma indexOfSorted_event_finds:
  assumes "sorted (map beat xs)"
    and "\<forall>x\<in>set xs. eventId x = eventId t \<longrightarrow> beat x = beat t"
    and "\<exists>x\<in>set xs. eventId x = eventId t \<or> beat x = beat t"
  shows "\<exists>i. indexOfSorted TimeSignatureEvent_compareElements t xs = Some i"
proof -
  from assms(3) have "\<exists>x\<in>set xs. TimeSignatureEvent_compareElements t x = 0"
    unfolding compare_zero_iff by (metis)
  then show ?thesis
    using indexOfSorted_complete [of beat xs TimeSignatureEvent_compareElements t]
      assms(1) compare_strict [OF assms(2)] by blast
qed

lemma indexOfSorted_event_sound:
  assumes "indexOfSorted TimeSignatureEvent_compareElements t xs = Some i"
  shows "i < length xs \<and> (eventId (xs ! i) = eventId t \<or> beat (xs ! i) = beat t)"
  using indexOfSorted_sound [OF assms] by (auto simp: compare_zero_iff)

lemma insert_event_fields:
  "fst (insert_event e s) = e \<and>
   midiEvents (snd (insert_event e s)) =
     addSorted TimeSignatureEvent_compareElements e (midiEvents s) \<and>
   usedEventIds (snd (insert_event e s)) = usedEventIds s \<and>
   trace (snd (insert_event e s)) =
     trace s @ [(EventAdded e, addSorted TimeSignatureEvent_compareElements e (midiEvents s)),
                (UpdateBeatRange True, addSorted TimeSignatureEvent_compareElements e (midiEvents s))]"
  by (simp add: insert_event_def emit_def Let_def)

lemma emit_fields [simp]:
  "midiEvents (emit c s) = midiEvents s"
  "usedEventIds (emit c s) = usedEventIds s"
  "trace (emit c s) = trace s @ [(c, midiEvents s)]"
  by (simp_all add: emit_def)

lemma changeGroup_loop_returns:
  "length groupBefore \<le> length groupAfter \<Longrightarrow>
   \<exists>s'. changeGroup_loop groupBefore groupAfter this = Some s'"
  by (induction groupBefore groupAfter this rule: changeGroup_loop.induct) simp_all




lemma remove_event_not_found:
  "indexOfSorted TimeSignatureEvent_compareElements t (midiEvents s) = None \<Longrightarrow>
   remove_event t s = (False, s)"
  by (simp add: remove_event_def)

lemma remove_event_found:
  "indexOfSorted TimeSignatureEvent_compareElements t (midiEvents s) = Some i \<Longrightarrow>
   fst (remove_event t s) = True \<and>
   midiEvents (snd (remove_event t s)) = removeAt i (midiEvents s) \<and>
   usedEventIds (snd (remove_event t s)) = usedEventIds s \<and>
   trace (snd (remove_event t s)) =
     trace s @ [(EventRemoved (midiEvents s ! i), midiEvents s),
                (UpdateBeatRange True, removeAt i (midiEvents s)),
                (EventRemovedPostAction, removeAt i (midiEvents s))]"
  by (simp add: remove_event_def Let_def)

lemma applyChanges_keeps_id [simp]:
  "eventId (TimeSignatureEvent_applyChanges e p) = eventId e"
  by (simp add: TimeSignatureEvent_applyChanges_def)

lemma removed_key_not_left:
  assumes "distinct (map f xs)" "i < length xs"
  shows "f (xs ! i) \<notin> f ` set (removeAt i xs)"
proof -
  have "mset (map f xs) = mset (map f (xs ! i # removeAt i xs))"
    using mset_removeAt_add [OF assms(2)] by (metis mset.simps(2) mset_map)
  then have "distinct (map f (xs ! i # removeAt i xs))"
    using assms(1) by (metis mset_eq_imp_distinct_iff)
  then show ?thesis by simp
qed

lemma distinct_map_addSorted:
  assumes "distinct (map f xs)" "f t \<notin> f ` set xs"
  shows "distinct (map f (addSorted cmp t xs))"
proof -
  have "mset (map f (addSorted cmp t xs)) = mset (map f (t # xs))"
    using mset_addSorted [of cmp t xs] by (metis mset.simps(2) mset_map)
  moreover have "distinct (map f (t # xs))" using assms by simp
  ultimately show ?thesis by (metis mset_eq_imp_distinct_iff)
qed

lemma insert_event_keeps_order:
  assumes "sorted (map beat (midiEvents s))" "distinct (map eventId (midiEvents s))"
    and "eventId e \<notin> eventId ` set (midiEvents s)"
  shows "sorted (map beat (midiEvents (snd (insert_event e s)))) \<and>
     distinct (map eventId (midiEvents (snd (insert_event e s))))"
proof -
  have "\<forall>x\<in>set (midiEvents s). eventId x = eventId e \<longrightarrow> beat x = beat e"
    using assms(3) by (metis imageI)
  then show ?thesis
    using sorted_addSorted_event [OF assms(1)] distinct_map_addSorted [OF assms(2,3)]
    by (simp add: insert_event_fields)
qed

lemma remove_event_keeps_order:
  assumes "sorted (map beat (midiEvents s))"
  shows "sorted (map beat (midiEvents (snd (remove_event e s))))"
  using assms
  by (cases "indexOfSorted TimeSignatureEvent_compareElements e (midiEvents s)")
    (simp_all add: remove_event_not_found remove_event_found sorted_removeAt)

lemma remove_event_keeps_distinct:
  assumes "distinct (map eventId (midiEvents s))"
  shows "distinct (map eventId (midiEvents (snd (remove_event e s))))"
  using assms
  by (cases "indexOfSorted TimeSignatureEvent_compareElements e (midiEvents s)")
    (simp_all add: remove_event_not_found remove_event_found distinct_map_removeAt)

lemma change_event_not_found:
  "indexOfSorted TimeSignatureEvent_compareElements old (midiEvents s) = None \<Longrightarrow>
   change_event old new s = (False, s)"
  by (simp add: change_event_def)

lemma change_event_found:
  "indexOfSorted TimeSignatureEvent_compareElements old (midiEvents s) = Some i \<Longrightarrow>
   fst (change_event old new s) = True \<and>
   midiEvents (snd (change_event old new s)) =
     addSorted TimeSignatureEvent_compareElements
       (TimeSignatureEvent_applyChanges (midiEvents s ! i) new) (removeAt i (midiEvents s)) \<and>
   usedEventIds (snd (change_event old new s)) = usedEventIds s"
  by (simp add: change_event_def Let_def)

lemma change_event_keeps_order:
  assumes "sorted (map beat (midiEvents s))" "distinct (map eventId (midiEvents s))"
  shows "sorted (map beat (midiEvents (snd (change_event old new s)))) \<and>
     distinct (map eventId (midiEvents (snd (change_event old new s))))"
proof (cases "indexOfSorted TimeSignatureEvent_compareElements old (midiEvents s)")
  case None
  then show ?thesis using assms by (simp add: change_event_not_found)
next
  case (Some i)
  let ?c = "TimeSignatureEvent_applyChanges (midiEvents s ! i) new"
  let ?r = "removeAt i (midiEvents s)"
  have i: "i < length (midiEvents s)" using indexOfSorted_sound [OF Some] by simp
  have fresh: "eventId ?c \<notin> eventId ` set ?r"
    using removed_key_not_left [OF assms(2) i] by simp
  then have "\<forall>x\<in>set ?r. eventId x = eventId ?c \<longrightarrow> beat x = beat ?c"
    by (metis imageI)
  then have "sorted (map beat (addSorted TimeSignatureEvent_compareElements ?c ?r))"
    using sorted_addSorted_event [OF sorted_removeAt [OF assms(1)]] by blast
  moreover have "distinct (map eventId (addSorted TimeSignatureEvent_compareElements ?c ?r))"
    using distinct_map_addSorted [OF distinct_map_removeAt [OF assms(2)] fresh] .
  ultimately show ?thesis by (simp add: change_event_found [OF Some])
qed

lemma silentImport_invariant:
  assumes "import_invariant s"
  shows "import_invariant (silentImport e s)"
proof (cases "eventId e \<in> usedEventIds s")
  case True
  then show ?thesis using assms by (simp add: silentImport_def import_invariant_def)
next
  case False
  then have fresh: "eventId e \<notin> eventId ` set (midiEvents s)"
    using assms by (auto simp: import_invariant_def)
  then have "\<forall>x\<in>set (midiEvents s). eventId x = eventId e \<longrightarrow> beat x = beat e"
    by (metis imageI)
  then have "sorted (map beat (addSorted TimeSignatureEvent_compareElements e (midiEvents s)))"
    using sorted_addSorted_event assms by (simp add: import_invariant_def)
  moreover have "distinct (map eventId (addSorted TimeSignatureEvent_compareElements e (midiEvents s)))"
    using distinct_map_addSorted [OF _ fresh] assms by (simp add: import_invariant_def)
  moreover have "eventId ` set (addSorted TimeSignatureEvent_compareElements e (midiEvents s))
      \<subseteq> insert (eventId e) (usedEventIds s)"
    using assms by (auto simp: import_invariant_def set_addSorted)
  ultimately show ?thesis using False
    by (simp add: silentImport_def import_invariant_def Let_def)
qed

lemma importMidi_loop_invariant:
  "import_invariant s \<Longrightarrow> import_invariant (importMidi_loop newEvent importScale midi s)"
  by (induction midi arbitrary: s) (simp_all add: silentImport_invariant Let_def)

lemma importMidi_invariant:
  "import_invariant (importMidi newEvent importScale midi s)"
proof -
  have "import_invariant (reset (emit Checkpoint (emit ClearUndoHistory s)))"
    by (simp add: import_invariant_def reset_def)
  from importMidi_loop_invariant [OF this]
  show ?thesis by (simp add: importMidi_def import_invariant_def)
qed

lemma deserialize_sorted:
  "sorted (map beat (midiEvents (deserialize deserializeEvent xml s)))"
  by (simp add: deserialize_def sort_events_def reset_def Let_def split: option.splits)

lemma applyChanges_same_id:
  "eventId a = eventId b \<Longrightarrow> TimeSignatureEvent_applyChanges b a = a"
  by (cases a, cases b) (simp add: TimeSignatureEvent_applyChanges_def)

lemma lookup_stored:
  assumes "sorted (map beat xs)" "e \<in> set xs"
    and "\<forall>x\<in>set xs. x \<noteq> e \<longrightarrow> eventId x \<noteq> eventId e \<and> beat x \<noteq> beat e"
  shows "\<exists>i. indexOfSorted TimeSignatureEvent_compareElements e xs = Some i \<and>
     i < length xs \<and> xs ! i = e"
proof -
  have c: "\<forall>x\<in>set xs. eventId x = eventId e \<longrightarrow> beat x = beat e"
    using assms(3) by metis
  have "\<exists>x\<in>set xs. eventId x = eventId e \<or> beat x = beat e"
    using assms(2) by blast
  from indexOfSorted_event_finds [OF assms(1) c this] obtain i where
    i: "indexOfSorted TimeSignatureEvent_compareElements e xs = Some i" by blast
  from indexOfSorted_event_sound [OF i]
  have "i < length xs" "eventId (xs ! i) = eventId e \<or> beat (xs ! i) = beat e" by simp_all
  moreover then have "xs ! i \<in> set xs" by simp
  ultimately have "xs ! i = e" using assms(3) by blast
  with i \<open>i < length xs\<close> show ?thesis by blast
qed

lemma removeAt_insertAt: "k \<le> length xs \<Longrightarrow> removeAt k (insertAt k e xs) = xs"
  by (simp add: removeAt_def insertAt_def)

lemma insertAt_removeAt: "i < length xs \<Longrightarrow> insertAt i (xs ! i) (removeAt i xs) = xs"
  by (simp add: removeAt_def insertAt_def id_take_nth_drop [symmetric] min_def)

lemma index_of_inserted:
  assumes "k \<le> length xs" "e \<notin> set xs" "j \<le> length xs" "insertAt k e xs ! j = e"
  shows "j = k"
proof (rule ccontr)
  assume ne: "j \<noteq> k"
  have ys: "insertAt k e xs = take k xs @ e # drop k xs" using assms(1) by (simp add: insertAt_def)
  show False
  proof (cases "j < k")
    case True
    then have "insertAt k e xs ! j = xs ! j" using assms(1) by (simp add: ys nth_append)
    moreover have "xs ! j \<in> set xs" using True assms(1) by simp
    ultimately show False using assms(2,4) by simp
  next
    case False
    then have gt: "k < j" using ne by simp
    then obtain m where m: "j = k + Suc m" using less_imp_Suc_add by (metis add_Suc_right)
    have "insertAt k e xs ! j = drop k xs ! m"
      using assms(1) by (simp add: ys nth_append m min_def)
    moreover have "k + m < length xs" using assms(3) m by simp
    then have "drop k xs ! m \<in> set xs" using assms(1) by simp
    ultimately show False using assms(2,4) by simp
  qed
qed

lemma sorted_insertion_place:
  fixes key :: "'a \<Rightarrow> 'k::linorder"
  assumes "sorted (map key (insertAt k e zs))" "k \<le> length zs"
    and "\<forall>x\<in>set zs. key x \<noteq> key e"
  shows "insertAt k e zs =
     filter (\<lambda>x. key x < key e) zs @ e # filter (\<lambda>x. key e < key x) zs"
proof -
  have ys: "insertAt k e zs = take k zs @ e # drop k zs" using assms(2) by (simp add: insertAt_def)
  have lo: "\<forall>x\<in>set (take k zs). key x < key e"
  proof
    fix x assume x: "x \<in> set (take k zs)"
    then have "key x \<le> key e" using assms(1) by (simp add: ys sorted_append)
    moreover have "x \<in> set zs" using x by (rule in_set_takeD)
    ultimately show "key x < key e" using assms(3) by (simp add: less_le)
  qed
  have hi: "\<forall>x\<in>set (drop k zs). key e < key x"
  proof
    fix x assume x: "x \<in> set (drop k zs)"
    then have "key e \<le> key x" using assms(1) by (simp add: ys sorted_append)
    moreover have "x \<in> set zs" using x by (rule in_set_dropD)
    ultimately show "key e < key x" using assms(3) by (metis less_le)
  qed
  have "filter (\<lambda>x. key x < key e) (take k zs @ drop k zs) = take k zs"
    using lo hi by (simp del: append_take_drop_id add: filter_empty_conv not_less less_imp_le)
  moreover have "filter (\<lambda>x. key e < key x) (take k zs @ drop k zs) = drop k zs"
    using lo hi by (simp del: append_take_drop_id add: filter_empty_conv not_less less_imp_le)
  ultimately show ?thesis by (simp add: ys)
qed

lemma others_after_removal:
  assumes "i < length xs" "xs ! i = e"
  shows "set (removeAt i xs) = set (remove1 e xs)"
proof -
  have "mset (removeAt i xs) = mset (remove1 e xs)"
    using mset_removeAt [OF assms(1)] assms(2) by simp
  then show ?thesis by (metis set_mset_mset)
qed

lemma lookup_only_one:
  assumes "sorted (map beat xs)" "e \<in> set xs"
    and "\<forall>x\<in>set (remove1 e xs). eventId x \<noteq> eventId e \<and> beat x \<noteq> beat e"
  shows "\<exists>i. indexOfSorted TimeSignatureEvent_compareElements e xs = Some i \<and>
     i < length xs \<and> xs ! i = e"
proof -
  have "\<forall>x\<in>set xs. x \<noteq> e \<longrightarrow> eventId x \<noteq> eventId e \<and> beat x \<noteq> beat e"
    using assms(3) by (metis in_set_remove1)
  from lookup_stored [OF assms(1,2) this] show ?thesis .
qed

lemma insert_then_remove_same:
  assumes "sorted (map beat (midiEvents s))"
    and "\<forall>x\<in>set (midiEvents s). eventId x \<noteq> eventId e \<and> beat x \<noteq> beat e"
  shows "fst (remove_event e (snd (insert_event e s))) \<and>
     midiEvents (snd (remove_event e (snd (insert_event e s)))) = midiEvents s"
proof -
  let ?xs = "midiEvents s"
  let ?k = "findInsertIndexInSortedArray TimeSignatureEvent_compareElements ?xs e 0 (length ?xs)"
  let ?ys = "addSorted TimeSignatureEvent_compareElements e ?xs"
  let ?s1 = "snd (insert_event e s)"
  have k: "?k \<le> length ?xs"
    using findInsertIndex_bounds [of 0 "length ?xs" TimeSignatureEvent_compareElements ?xs e]
    by simp
  have ys: "midiEvents ?s1 = ?ys" "?ys = insertAt ?k e ?xs"
    by (simp_all add: insert_event_fields addSorted_def)
  have srt: "sorted (map beat ?ys)"
    using sorted_addSorted_event [OF assms(1), of e] assms(2) by blast
  have notin: "e \<notin> set ?xs" using assms(2) by blast
  have "\<forall>x\<in>set ?ys. x \<noteq> e \<longrightarrow> eventId x \<noteq> eventId e \<and> beat x \<noteq> beat e"
    using assms(2) by (simp add: set_addSorted)
  from lookup_stored [OF srt _ this] obtain j where
    j: "indexOfSorted TimeSignatureEvent_compareElements e ?ys = Some j" "j < length ?ys"
      "?ys ! j = e"
    by (auto simp: set_addSorted)
  have "j \<le> length ?xs" using j(2) by (simp add: length_addSorted)
  from index_of_inserted [OF k notin this] j(3) have jk: "j = ?k" by (simp add: ys(2))
  have f: "indexOfSorted TimeSignatureEvent_compareElements e (midiEvents ?s1) = Some j"
    using j(1) ys(1) by simp
  have "removeAt j ?ys = ?xs" using removeAt_insertAt [OF k] by (simp add: jk ys(2))
  then show ?thesis using remove_event_found [OF f] ys(1) by simp
qed

lemma reinsert_at_same_place:
  assumes "sorted (map beat xs)" "i < length xs"
    and "\<forall>x\<in>set (removeAt i xs). eventId x \<noteq> eventId (xs ! i) \<and> beat x \<noteq> beat (xs ! i)"
  shows "addSorted TimeSignatureEvent_compareElements (xs ! i) (removeAt i xs) = xs"
proof -
  let ?e = "xs ! i" and ?zs = "removeAt i xs"
  let ?k = "findInsertIndexInSortedArray TimeSignatureEvent_compareElements ?zs ?e 0 (length ?zs)"
  have k: "?k \<le> length ?zs"
    using findInsertIndex_bounds [of 0 "length ?zs" TimeSignatureEvent_compareElements ?zs ?e]
    by simp
  have i: "i \<le> length ?zs" using length_removeAt [OF assms(2)] assms(2) by simp
  have b: "\<forall>x\<in>set ?zs. beat x \<noteq> beat ?e" using assms(3) by blast
  have "\<forall>x\<in>set ?zs. eventId x = eventId ?e \<longrightarrow> beat x = beat ?e" using assms(3) by blast
  from sorted_addSorted_event [OF sorted_removeAt [OF assms(1)] this]
  have "sorted (map beat (insertAt ?k ?e ?zs))" by (simp add: addSorted_def)
  from sorted_insertion_place [OF this k b]
  have 1: "insertAt ?k ?e ?zs =
      filter (\<lambda>x. beat x < beat ?e) ?zs @ ?e # filter (\<lambda>x. beat ?e < beat x) ?zs" .
  have "sorted (map beat (insertAt i ?e ?zs))"
    using assms(1) insertAt_removeAt [OF assms(2)] by simp
  from sorted_insertion_place [OF this i b]
  have 2: "insertAt i ?e ?zs =
      filter (\<lambda>x. beat x < beat ?e) ?zs @ ?e # filter (\<lambda>x. beat ?e < beat x) ?zs" .
  show ?thesis using 1 2 insertAt_removeAt [OF assms(2)] by (simp add: addSorted_def)
qed

lemma remove_then_insert_same:
  assumes "sorted (map beat (midiEvents s))" "e \<in> set (midiEvents s)"
    and "\<forall>x\<in>set (remove1 e (midiEvents s)). eventId x \<noteq> eventId e \<and> beat x \<noteq> beat e"
  shows "fst (remove_event e s) \<and>
     midiEvents (snd (insert_event e (snd (remove_event e s)))) = midiEvents s"
proof -
  from lookup_only_one [OF assms] obtain i where
    i: "indexOfSorted TimeSignatureEvent_compareElements e (midiEvents s) = Some i"
      "i < length (midiEvents s)" "midiEvents s ! i = e"
    by blast
  have "\<forall>x\<in>set (removeAt i (midiEvents s)).
      eventId x \<noteq> eventId (midiEvents s ! i) \<and> beat x \<noteq> beat (midiEvents s ! i)"
    using assms(3) others_after_removal [OF i(2,3)] i(3) by simp
  from reinsert_at_same_place [OF assms(1) i(2) this]
  show ?thesis using remove_event_found [OF i(1)] i(3) by (simp add: insert_event_fields)
qed

lemma change_there_and_back_same:
  assumes "sorted (map beat (midiEvents s))" "b \<in> set (midiEvents s)"
    and "\<forall>x\<in>set (remove1 b (midiEvents s)).
        eventId x \<noteq> eventId b \<and> beat x \<noteq> beat b \<and> eventId x \<noteq> eventId a \<and> beat x \<noteq> beat a"
  shows "fst (change_event b a s) \<and> fst (change_event a b (snd (change_event b a s))) \<and>
     midiEvents (snd (change_event a b (snd (change_event b a s)))) = midiEvents s"
proof -
  let ?xs = "midiEvents s"
  have "\<forall>x\<in>set (remove1 b ?xs). eventId x \<noteq> eventId b \<and> beat x \<noteq> beat b"
    using assms(3) by blast
  from lookup_only_one [OF assms(1,2) this] obtain i where
    i: "indexOfSorted TimeSignatureEvent_compareElements b ?xs = Some i"
      "i < length ?xs" "?xs ! i = b"
    by blast
  let ?zs = "removeAt i ?xs"
  let ?c = "TimeSignatureEvent_applyChanges b a"
  let ?k = "findInsertIndexInSortedArray TimeSignatureEvent_compareElements ?zs ?c 0 (length ?zs)"
  let ?ys = "addSorted TimeSignatureEvent_compareElements ?c ?zs"
  let ?s1 = "snd (change_event b a s)"
  have cf: "eventId ?c = eventId b" "beat ?c = beat a" 
    by (simp_all add: TimeSignatureEvent_applyChanges_def)
  have oth: "\<forall>x\<in>set ?zs.
      eventId x \<noteq> eventId b \<and> beat x \<noteq> beat b \<and> eventId x \<noteq> eventId a \<and> beat x \<noteq> beat a"
    using assms(3) others_after_removal [OF i(2,3)] by simp
  have s1: "fst (change_event b a s)" "midiEvents ?s1 = ?ys"
    using change_event_found [OF i(1), of a] i(3) by simp_all
  have k: "?k \<le> length ?zs"
    using findInsertIndex_bounds [of 0 "length ?zs" TimeSignatureEvent_compareElements ?zs ?c]
    by simp
  have ysk: "?ys = insertAt ?k ?c ?zs" by (simp add: addSorted_def)
  have szs: "sorted (map beat ?zs)" by (rule sorted_removeAt [OF assms(1)])
  have "\<forall>x\<in>set ?zs. eventId x = eventId ?c \<longrightarrow> beat x = beat ?c" using oth cf by simp
  from sorted_addSorted_event [OF szs this] have sys: "sorted (map beat ?ys)" .
  have cons: "\<forall>x\<in>set ?ys. eventId x = eventId a \<longrightarrow> beat x = beat a"
    using oth cf by (auto simp: set_addSorted)
  have "\<exists>x\<in>set ?ys. eventId x = eventId a \<or> beat x = beat a"
    using cf by (auto simp: set_addSorted)
  from indexOfSorted_event_finds [OF sys cons this] obtain j where
    j: "indexOfSorted TimeSignatureEvent_compareElements a ?ys = Some j" by blast
  from indexOfSorted_event_sound [OF j]
  have jl: "j < length ?ys"
    and jm: "eventId (?ys ! j) = eventId a \<or> beat (?ys ! j) = beat a" by simp_all
  have "?ys ! j \<in> set ?ys" using jl by simp
  then have "?ys ! j = ?c \<or> ?ys ! j \<in> set ?zs" by (simp add: set_addSorted)
  then have yj: "?ys ! j = ?c" using jm oth by blast
  have cnot: "?c \<notin> set ?zs" using oth cf by metis
  have "j \<le> length ?zs" using jl by (simp add: length_addSorted)
  from index_of_inserted [OF k cnot this] yj have jk: "j = ?k" by (simp add: ysk)
  have rz: "removeAt j ?ys = ?zs" using removeAt_insertAt [OF k] by (simp add: jk ysk)
  have f: "indexOfSorted TimeSignatureEvent_compareElements a (midiEvents ?s1) = Some j"
    using j s1(2) by simp
  have restored: "TimeSignatureEvent_applyChanges (midiEvents ?s1 ! j) b = b"
    using applyChanges_same_id [of b "?c"] cf(1) yj s1(2) by simp
  have s2: "fst (change_event a b ?s1)"
    "midiEvents (snd (change_event a b ?s1)) =
       addSorted TimeSignatureEvent_compareElements b ?zs"
    using change_event_found [OF f, of b] restored s1(2) rz by simp_all
  have "\<forall>x\<in>set ?zs. eventId x \<noteq> eventId (?xs ! i) \<and> beat x \<noteq> beat (?xs ! i)"
    using oth i(3) by simp
  from reinsert_at_same_place [OF assms(1) i(2) this]
  have "addSorted TimeSignatureEvent_compareElements b ?zs = ?xs" using i(3) by simp
  then show ?thesis using s1(1) s2 by simp
qed








lemma float_cast_4: "float_cast 4 = 4"
  by code_simp

lemma fold_prependChildElement:
  "fold (\<lambda>event xml. prependChildElement (ser event) xml) xs (XmlElement t a cs) =
   XmlElement t a (rev (map ser xs) @ cs)"
  by (induction xs arbitrary: cs) (simp_all add: prependChildElement_def)

lemma serialize_children:
  "serialize ser s =
   XmlElement Serialization_Core_timeSignatures [] (rev (map ser (midiEvents s)))"
  by (simp add: serialize_def fold_prependChildElement)

lemma deserialize_loop_reads:
  assumes "\<forall>e\<in>set es. tagName (ser e) = Serialization_Core_timeSignature \<and>
      (\<forall>st. deser st (ser e) = e)"
  shows "deserialize_loop deser (map ser es) s =
     s\<lparr>midiEvents := midiEvents s @ es, usedEventIds := usedEventIds s \<union> eventId ` set es\<rparr>"
  using assms
proof (induction es arbitrary: s)
  case Nil
  then show ?case by simp
next
  case (Cons e es)
  let ?s1 = "s\<lparr>midiEvents := midiEvents s @ [e], usedEventIds := insert (eventId e) (usedEventIds s)\<rparr>"
  have "deserialize_loop deser (map ser (e # es)) s = deserialize_loop deser (map ser es) ?s1"
    using Cons.prems by (simp add: Let_def)
  also have "\<dots> = ?s1\<lparr>midiEvents := midiEvents ?s1 @ es,
      usedEventIds := usedEventIds ?s1 \<union> eventId ` set es\<rparr>"
    using Cons.IH [of ?s1] Cons.prems by simp
  finally show ?case by simp
qed

section \<open>The comparator\<close>

text \<open>
  C5. The comparator of clips answers 0 whenever the two ids are the same, whatever the
  beats; for two different ids it answers the sign of the difference of the beats, so two
  events with different ids on the same beat compare as equal too, and the id never
  decides an order.
\<close>

theorem compareElements_ids_then_beat_sign:
  "(id' a = id' b \<longrightarrow> compareElements a b = 0) \<and>
   (id' a \<noteq> id' b \<and> startBeat a = startBeat b \<longrightarrow> compareElements a b = 0) \<and>
   (id' a \<noteq> id' b \<and> startBeat a < startBeat b \<longrightarrow> compareElements a b = - 1) \<and>
   (id' a \<noteq> id' b \<and> startBeat b < startBeat a \<longrightarrow> compareElements a b = 1)"
  by (simp add: compareElements_def Let_def)

theorem compareElements_ids_then_beat_sign_witness:
  "compareElements \<lparr>pattern = None, startBeat = 0, id' = ''a''\<rparr>
     \<lparr>pattern = None, startBeat = 8, id' = ''a''\<rparr> = 0 \<and>
   compareElements \<lparr>pattern = None, startBeat = 2, id' = ''a''\<rparr>
     \<lparr>pattern = None, startBeat = 2, id' = ''b''\<rparr> = 0 \<and>
   compareElements \<lparr>pattern = None, startBeat = 0, id' = ''a''\<rparr>
     \<lparr>pattern = None, startBeat = 8, id' = ''b''\<rparr> = - 1 \<and>
   compareElements \<lparr>pattern = None, startBeat = 8, id' = ''b''\<rparr>
     \<lparr>pattern = None, startBeat = 0, id' = ''a''\<rparr> = 1"
  using
    compareElements_ids_then_beat_sign
      [of "\<lparr>pattern = None, startBeat = 0, id' = ''a''\<rparr>"
          "\<lparr>pattern = None, startBeat = 8, id' = ''a''\<rparr>"]
    compareElements_ids_then_beat_sign
      [of "\<lparr>pattern = None, startBeat = 2, id' = ''a''\<rparr>"
          "\<lparr>pattern = None, startBeat = 2, id' = ''b''\<rparr>"]
    compareElements_ids_then_beat_sign
      [of "\<lparr>pattern = None, startBeat = 0, id' = ''a''\<rparr>"
          "\<lparr>pattern = None, startBeat = 8, id' = ''b''\<rparr>"]
    compareElements_ids_then_beat_sign
      [of "\<lparr>pattern = None, startBeat = 8, id' = ''b''\<rparr>"
          "\<lparr>pattern = None, startBeat = 0, id' = ''a''\<rparr>"]
  by simp

section \<open>Rounding of the start beat\<close>

text \<open>
  C9, as the code has it. A clip built from a beat value stores \<open>roundBeat\<close> of that
  value, and a clip moved by \<open>withDeltaBeat\<close> stores \<open>roundBeat\<close> of the float sum of
  its start beat and the delta. \<open>applyChanges\<close> stores the start beat of the other clip
  as it is, and \<open>deserialize\<close> stores the number of the attribute \<open>start\<close> (its own
  start beat where the attribute is missing) narrowed to a float: neither of the two
  rounds to the grid.
\<close>

theorem startBeat_rounded_on_construction_and_delta_only:
  "startBeat (Clip_fromBeat ticks createUniqueClipId owner beatVal) = roundBeat ticks beatVal \<and>
   startBeat (withDeltaBeat ticks this deltaPosition) =
     roundBeat ticks (float_cast (startBeat this + deltaPosition)) \<and>
   startBeat (applyChanges this other) = startBeat other \<and>
   startBeat (Clip_deserialize getDoubleValue xml this) =
     float_cast (getDoubleAttribute getDoubleValue xml ''start'' (startBeat this))"
  by (simp add: Clip_fromBeat_def withDeltaBeat_def applyChanges_def Clip_deserialize_def Let_def)

text \<open>
  The claim as it is written fails for \<open>applyChanges\<close> and for \<open>deserialize\<close>: with
  sixteen grid steps in a beat, the beat 3/64, which is a float, rounds to 1/16, and both
  functions store 3/64.
\<close>

theorem applyChanges_and_deserialize_store_unrounded:
  "startBeat (applyChanges \<lparr>pattern = None, startBeat = 0, id' = ''a''\<rparr>
                \<lparr>pattern = None, startBeat = 3 / 64, id' = ''a''\<rparr>) = 3 / 64 \<and>
   startBeat (Clip_deserialize (\<lambda>text. if text = ''0.046875'' then 3 / 64 else 0)
                (XmlElement ''clip'' [(''start'', ''0.046875''), (''id'', ''a'')] [])
                \<lparr>pattern = None, startBeat = 0, id' = []\<rparr>) = 3 / 64 \<and>
   float_cast (3 / 64) = 3 / 64 \<and>
   roundBeat 16 (3 / 64) = 1 / 16 \<and>
   roundBeat 16 (3 / 64) \<noteq> 3 / 64"
proof -
  have f: "float_cast (3 / 64) = 3 / 64" by code_simp
  have "\<lfloor>5 / 4 :: rat\<rfloor> = 1" by (simp add: floor_eq_iff)
  then show ?thesis
    using f
    by (simp add: applyChanges_def Clip_deserialize_def getDoubleAttribute_def roundBeat_def
        roundf_def)
qed

section \<open>Insertion\<close>

text \<open>
  C4, as the code has it. \<open>insert\<close> with \<open>undoable = false\<close> answers the stored copy,
  adds exactly that event to the array, at a place that keeps an array sorted by beat
  sorted when the id of the event is not yet in the array, tells the listeners once that
  an event was added and then updates the beat range as a change of the user. It leaves
  the set of used ids as it was: only \<open>silentImport\<close> and \<open>deserialize\<close> register an id.
\<close>

theorem insert_event_effects:
  "fst (insert_event eventParams this) = eventParams \<and>
   mset (midiEvents (snd (insert_event eventParams this))) =
     add_mset eventParams (mset (midiEvents this)) \<and>
   (sorted (map beat (midiEvents this)) \<and> eventId eventParams \<notin> eventId ` set (midiEvents this) \<longrightarrow>
      sorted (map beat (midiEvents (snd (insert_event eventParams this))))) \<and>
   usedEventIds (snd (insert_event eventParams this)) = usedEventIds this \<and>
   trace (snd (insert_event eventParams this)) =
     trace this @
       [(EventAdded eventParams, midiEvents (snd (insert_event eventParams this))),
        (UpdateBeatRange True, midiEvents (snd (insert_event eventParams this)))]"
proof -
  have "sorted (map beat (midiEvents this)) \<and> eventId eventParams \<notin> eventId ` set (midiEvents this) \<longrightarrow>
      sorted (map beat (addSorted TimeSignatureEvent_compareElements eventParams (midiEvents this)))"
    using sorted_addSorted_event [of "midiEvents this" eventParams] by (metis imageI)
  then show ?thesis
    by (simp add: insert_event_fields mset_addSorted)
qed

theorem insert_event_effects_witness:
  "sorted (map beat (midiEvents (holding [ts ''a'' 0 4 4, ts ''c'' 8 3 4] {}))) \<and>
   eventId (ts ''b'' 4 6 8) \<notin> eventId ` set (midiEvents (holding [ts ''a'' 0 4 4, ts ''c'' 8 3 4] {})) \<and>
   sorted (map beat (midiEvents
     (snd (insert_event (ts ''b'' 4 6 8) (holding [ts ''a'' 0 4 4, ts ''c'' 8 3 4] {}))))) \<and>
   usedEventIds (snd (insert_event (ts ''b'' 4 6 8) (holding [ts ''a'' 0 4 4, ts ''c'' 8 3 4] {})))
     = {}"
  using insert_event_effects [of "ts ''b'' 4 6 8" "holding [ts ''a'' 0 4 4, ts ''c'' 8 3 4] {}"]
  by simp

text \<open>
  The claim as it is written fails on the used ids: after an insert into an empty
  sequence the event is stored and its id is not in the set of used ids.
\<close>

theorem insert_event_does_not_register_id:
  "midiEvents (snd (insert_event (ts ''a'' 0 4 4) (holding [] {}))) = [ts ''a'' 0 4 4] \<and>
   usedEventIds (snd (insert_event (ts ''a'' 0 4 4) (holding [] {}))) = {} \<and>
   eventId (ts ''a'' 0 4 4) \<notin> usedEventIds (snd (insert_event (ts ''a'' 0 4 4) (holding [] {})))"
  by (simp add: insert_event_def emit_def Let_def addSorted_def insertAt_def
      findInsertIndexInSortedArray.simps)

section \<open>Duplicate ids during import\<close>

text \<open>
  C7. During an import, an event whose id is already in the set of used ids makes
  \<open>silentImport\<close> report a failed assertion and return at once: the array of events and
  the set of used ids are as before, only the trace has the report. The loop of
  \<open>importMidi\<close> then goes on with the messages that are left; nothing aborts.
\<close>

theorem import_skips_duplicate_id:
  "(eventId signature \<in> usedEventIds this \<longrightarrow>
      silentImport signature this = this\<lparr>trace := trace this @ [(JAssertFalse, midiEvents this)]\<rparr>) \<and>
   (isTimeSignatureMetaEvent message \<and>
    eventId (newEvent this (getTimeStamp message / importScale)
               (fst (getTimeSignatureInfo message)) (snd (getTimeSignatureInfo message)))
      \<in> usedEventIds this \<longrightarrow>
      importMidi_loop newEvent importScale (message # rest) this =
        importMidi_loop newEvent importScale rest
          (this\<lparr>trace := trace this @ [(JAssertFalse, midiEvents this)]\<rparr>))"
  by (simp add: silentImport_def emit_def Let_def)

theorem import_skips_duplicate_id_witness:
  "eventId (ts ''a'' 2 3 4) \<in> usedEventIds (holding [ts ''a'' 0 4 4] {''a''}) \<and>
   silentImport (ts ''a'' 2 3 4) (holding [ts ''a'' 0 4 4] {''a''}) =
     \<lparr>midiEvents = [ts ''a'' 0 4 4], usedEventIds = {''a''},
        trace = [(JAssertFalse, [ts ''a'' 0 4 4])]\<rparr> \<and>
   midiEvents (importMidi_loop (\<lambda>this b n d. ts (if b < 4 then ''a'' else ''b'') b n d) 1
     [\<lparr>isTimeSignatureMetaEvent = True, getTimeSignatureInfo = (3, 4), getTimeStamp = 2\<rparr>,
      \<lparr>isTimeSignatureMetaEvent = True, getTimeSignatureInfo = (6, 8), getTimeStamp = 8\<rparr>]
     (holding [ts ''a'' 0 4 4] {''a''})) = [ts ''a'' 0 4 4, ts ''b'' 8 6 8]"
  using import_skips_duplicate_id [of "ts ''a'' 2 3 4" "holding [ts ''a'' 0 4 4] {''a''}"
      "\<lparr>isTimeSignatureMetaEvent = True, getTimeSignatureInfo = (3, 4), getTimeStamp = 2\<rparr>"
      "\<lambda>this b n d. ts (if b < 4 then ''a'' else ''b'') b n d" 1
      "[\<lparr>isTimeSignatureMetaEvent = True, getTimeSignatureInfo = (6, 8), getTimeStamp = 8\<rparr>]"]
  by (simp add: silentImport_def Let_def addSorted_def insertAt_def
      findInsertIndexInSortedArray.simps TimeSignatureEvent_compareElements_def)

section \<open>The grouped functions\<close>

text \<open>
  C10, as the code has it. The grouped functions with \<open>undoable = false\<close> answer true
  whenever they answer: \<open>insertGroup\<close> and \<open>removeGroup\<close> for every list,
  \<open>changeGroup\<close> for every two lists of which \<open>groupAfter\<close> is at least as long as
  \<open>groupBefore\<close> (the function asserts equal sizes and reads \<open>groupAfter\<close> unchecked).
  A member that the search does not find, which is so at least when no stored event has
  its id or its beat, is passed over: the loop goes on with the state it had, and the
  answer is still true, where the single \<open>remove\<close> and \<open>change\<close> answer false.
\<close>

theorem grouped_operations_answer_true:
  "fst (insertGroup signatures this) = True \<and>
   fst (removeGroup signatures this) = True \<and>
   (length groupBefore \<le> length groupAfter \<longrightarrow>
      (\<exists>s'. changeGroup groupBefore groupAfter this = Some (True, s'))) \<and>
   (changeGroup groupBefore groupAfter this = Some (r, s') \<longrightarrow> r = True) \<and>
   (indexOfSorted TimeSignatureEvent_compareElements signature (midiEvents this) = None \<longrightarrow>
      fst (remove_event signature this) = False \<and>
      removeGroup_loop (signature # rest) this = removeGroup_loop rest this \<and>
      fst (removeGroup [signature] this) = True \<and>
      midiEvents (snd (removeGroup [signature] this)) = midiEvents this) \<and>
   (indexOfSorted TimeSignatureEvent_compareElements oldParams (midiEvents this) = None \<longrightarrow>
      fst (change_event oldParams newParams this) = False \<and>
      changeGroup_loop (oldParams # restBefore) (newParams # restAfter) this =
        changeGroup_loop restBefore restAfter this \<and>
      changeGroup [oldParams] [newParams] this = Some (True, emit (UpdateBeatRange True) this)) \<and>
   ((\<forall>x\<in>set (midiEvents this). eventId x \<noteq> eventId signature \<and> beat x \<noteq> beat signature) \<longrightarrow>
      indexOfSorted TimeSignatureEvent_compareElements signature (midiEvents this) = None)"
proof -
  have absent: "(\<forall>x\<in>set (midiEvents this).
        eventId x \<noteq> eventId signature \<and> beat x \<noteq> beat signature) \<longrightarrow>
      indexOfSorted TimeSignatureEvent_compareElements signature (midiEvents this) = None"
  proof
    assume h: "\<forall>x\<in>set (midiEvents this).
        eventId x \<noteq> eventId signature \<and> beat x \<noteq> beat signature"
    show "indexOfSorted TimeSignatureEvent_compareElements signature (midiEvents this) = None"
    proof (rule ccontr)
      assume "indexOfSorted TimeSignatureEvent_compareElements signature (midiEvents this) \<noteq> None"
      then obtain i where
        "indexOfSorted TimeSignatureEvent_compareElements signature (midiEvents this) = Some i"
        by blast
      from indexOfSorted_event_sound [OF this]
      have "i < length (midiEvents this)"
        "eventId (midiEvents this ! i) = eventId signature \<or>
         beat (midiEvents this ! i) = beat signature"
        by simp_all
      moreover then have "midiEvents this ! i \<in> set (midiEvents this)" by simp
      ultimately show False using h by blast
    qed
  qed
  have "length groupBefore \<le> length groupAfter \<longrightarrow>
      (\<exists>s'. changeGroup groupBefore groupAfter this = Some (True, s'))"
  proof
    assume le: "length groupBefore \<le> length groupAfter"
    obtain s1 where "changeGroup_loop groupBefore groupAfter
        (if length groupBefore = length groupAfter then this else emit JAssertFalse this) = Some s1"
      using changeGroup_loop_returns [OF le] by blast
    then show "\<exists>s'. changeGroup groupBefore groupAfter this = Some (True, s')"
      by (simp add: changeGroup_def Let_def)
  qed
  moreover have "changeGroup groupBefore groupAfter this = Some (r, s') \<longrightarrow> r = True"
    by (auto simp: changeGroup_def Let_def split: option.splits)
  ultimately show ?thesis
    using absent
    by (simp add: insertGroup_def removeGroup_def remove_event_def change_event_def
        changeGroup_def)
qed

theorem grouped_operations_answer_true_witness:
  "length [ts ''z'' 9 4 4] \<le> length [ts ''z'' 5 4 4] \<and>
   eventId (ts ''a'' 0 4 4) \<noteq> eventId (ts ''z'' 9 4 4) \<and>
   beat (ts ''a'' 0 4 4) \<noteq> beat (ts ''z'' 9 4 4) \<and>
   indexOfSorted TimeSignatureEvent_compareElements (ts ''z'' 9 4 4)
     (midiEvents (holding [ts ''a'' 0 4 4] {})) = None \<and>
   fst (remove_event (ts ''z'' 9 4 4) (holding [ts ''a'' 0 4 4] {})) = False \<and>
   fst (removeGroup [ts ''z'' 9 4 4] (holding [ts ''a'' 0 4 4] {})) = True \<and>
   midiEvents (snd (removeGroup [ts ''z'' 9 4 4] (holding [ts ''a'' 0 4 4] {}))) = [ts ''a'' 0 4 4] \<and>
   fst (change_event (ts ''z'' 9 4 4) (ts ''z'' 5 4 4) (holding [ts ''a'' 0 4 4] {})) = False \<and>
   changeGroup [ts ''z'' 9 4 4] [ts ''z'' 5 4 4] (holding [ts ''a'' 0 4 4] {}) =
     Some (True, emit (UpdateBeatRange True) (holding [ts ''a'' 0 4 4] {}))"
proof -
  have none: "indexOfSorted TimeSignatureEvent_compareElements (ts ''z'' 9 4 4)
      (midiEvents (holding [ts ''a'' 0 4 4] {})) = None"
    by (simp add: indexOfSorted_def indexOfSorted_loop.simps
        TimeSignatureEvent_compareElements_def)
  show ?thesis
    using none
      grouped_operations_answer_true [of "[ts ''z'' 9 4 4]" "holding [ts ''a'' 0 4 4] {}"
        "[ts ''z'' 9 4 4]" "[ts ''z'' 5 4 4]" True "holding [] {}" "ts ''z'' 9 4 4" "[]"
        "ts ''z'' 9 4 4" "ts ''z'' 5 4 4" "[]" "[]"]
    by simp
qed

text \<open>
  The claim as it is written fails twice. A member whose id is not in the sequence is not
  always passed over: where a stored event sits on its beat, the comparator calls the two
  equal, and \<open>removeGroup\<close> removes and \<open>changeGroup\<close> changes that stored event. And
  \<open>changeGroup\<close> does not answer true for every two lists: with \<open>groupAfter\<close> the
  shorter one it reads outside the array and has no answer.
\<close>

theorem grouped_absent_id_not_skipped:
  "eventId (ts ''z'' 0 4 4) \<notin> eventId ` set (midiEvents (holding [ts ''a'' 0 4 4] {})) \<and>
   removeGroup [ts ''z'' 0 4 4] (holding [ts ''a'' 0 4 4] {}) =
     (True, \<lparr>midiEvents = [], usedEventIds = {},
        trace = [(EventRemoved (ts ''a'' 0 4 4), [ts ''a'' 0 4 4]),
                 (UpdateBeatRange True, []), (EventRemovedPostAction, [])]\<rparr>) \<and>
   changeGroup [ts ''z'' 0 4 4] [ts ''z'' 3 6 8] (holding [ts ''a'' 0 4 4] {}) =
     Some (True, \<lparr>midiEvents = [ts ''a'' 3 6 8], usedEventIds = {},
        trace = [(EventChanged (ts ''z'' 0 4 4) (ts ''a'' 3 6 8), [ts ''a'' 3 6 8]),
                 (UpdateBeatRange True, [ts ''a'' 3 6 8])]\<rparr>) \<and>
   changeGroup [ts ''a'' 0 4 4] [] (holding [ts ''a'' 0 4 4] {}) = None"
  by (simp add: removeGroup_def changeGroup_def emit_def indexOfSorted_def
      indexOfSorted_loop.simps TimeSignatureEvent_compareElements_def removeAt_def
      TimeSignatureEvent_applyChanges_def addSorted_def insertAt_def
      findInsertIndexInSortedArray.simps Let_def)




section \<open>Removal\<close>




section \<open>The order of the array\<close>

text \<open>
  C2, as the code has it. In a sequence whose array is sorted by beat and holds no id
  twice, the array is sorted by beat again, and still holds no id twice, after \<open>insert\<close>
  of an event whose id is not in the array, after \<open>remove\<close> and after \<open>change\<close>, which
  takes the changed event out and adds it again at the place of its new beat. After
  \<open>importMidi\<close> and after \<open>deserialize\<close> the array is sorted by beat whatever the
  sequence held before.
\<close>

theorem sorted_store_preserved:
  "(sorted (map beat (midiEvents this)) \<and> distinct (map eventId (midiEvents this)) \<longrightarrow>
      (eventId eventParams \<notin> eventId ` set (midiEvents this) \<longrightarrow>
         sorted (map beat (midiEvents (snd (insert_event eventParams this)))) \<and>
         distinct (map eventId (midiEvents (snd (insert_event eventParams this))))) \<and>
      sorted (map beat (midiEvents (snd (remove_event signature this)))) \<and>
      distinct (map eventId (midiEvents (snd (remove_event signature this)))) \<and>
      sorted (map beat (midiEvents (snd (change_event oldParams newParams this)))) \<and>
      distinct (map eventId (midiEvents (snd (change_event oldParams newParams this))))) \<and>
   sorted (map beat (midiEvents (importMidi newEvent importScale midi other))) \<and>
   distinct (map eventId (midiEvents (importMidi newEvent importScale midi other))) \<and>
   sorted (map beat (midiEvents (deserialize deserializeEvent xml other)))"
  using insert_event_keeps_order [of this eventParams]
    remove_event_keeps_order [of this signature]
    remove_event_keeps_distinct [of this signature]
    change_event_keeps_order [of this oldParams newParams]
    importMidi_invariant [of newEvent importScale midi other]
    deserialize_sorted [of deserializeEvent xml other]
  by (simp add: import_invariant_def)

theorem sorted_store_preserved_witness:
  "sorted (map beat (midiEvents (holding [ts ''a'' 0 4 4, ts ''c'' 8 3 4] {}))) \<and>
   distinct (map eventId (midiEvents (holding [ts ''a'' 0 4 4, ts ''c'' 8 3 4] {}))) \<and>
   eventId (ts ''b'' 4 6 8) \<notin> eventId ` set (midiEvents (holding [ts ''a'' 0 4 4, ts ''c'' 8 3 4] {})) \<and>
   sorted (map beat (midiEvents
     (snd (insert_event (ts ''b'' 4 6 8) (holding [ts ''a'' 0 4 4, ts ''c'' 8 3 4] {}))))) \<and>
   sorted (map beat (midiEvents
     (snd (remove_event (ts ''a'' 0 4 4) (holding [ts ''a'' 0 4 4, ts ''c'' 8 3 4] {}))))) \<and>
   sorted (map beat (midiEvents
     (snd (change_event (ts ''a'' 0 4 4) (ts ''a'' 12 4 4)
        (holding [ts ''a'' 0 4 4, ts ''c'' 8 3 4] {})))))"
  using sorted_store_preserved [of "holding [ts ''a'' 0 4 4, ts ''c'' 8 3 4] {}"
      "ts ''b'' 4 6 8" "ts ''a'' 0 4 4" "ts ''a'' 0 4 4" "ts ''a'' 12 4 4"]
  by simp

text \<open>
  The claim as it is written fails for an insert of an event whose id is already in the
  array: the comparator calls the new event equal to the stored one, the search puts it
  right behind the stored one, and a lower beat then stands behind a higher one.
\<close>

theorem insert_event_of_stored_id_breaks_order:
  "sorted (map beat (midiEvents (holding [ts ''a'' 5 4 4] {}))) \<and>
   midiEvents (snd (insert_event (ts ''a'' 0 4 4) (holding [ts ''a'' 5 4 4] {}))) =
     [ts ''a'' 5 4 4, ts ''a'' 0 4 4] \<and>
   \<not> sorted (map beat (midiEvents (snd (insert_event (ts ''a'' 0 4 4) (holding [ts ''a'' 5 4 4] {})))))"
  by (simp add: insert_event_def addSorted_def insertAt_def findInsertIndexInSortedArray.simps
      TimeSignatureEvent_compareElements_def Let_def)

section \<open>Perform and undo\<close>

text \<open>
  C1, as the model has it. The perform of an insert action is the sequence's insert and
  its undo the sequence's remove of the same event, the remove action is the mirror, and
  the change action changes from before to after and back. They are inverses of each other
  on a sequence that the action fits. Let the array be sorted by beat; it may hold events
  that share a beat. For an insert action whose event has an id and a beat that no stored
  event has, for a remove action whose event is in the array while no other stored event
  has its id or its beat, and for a change action whose before-event is in the array
  while no other stored event has the id or the beat of the before-event or of the
  after-event, perform succeeds, undo succeeds, and the array after the undo is the array
  before the perform, event by event.
\<close>

theorem perform_undo_round_trip:
  "perform (InsertAction event) this = (True, snd (insert_event event this)) \<and>
   undo (InsertAction event) this = remove_event event this \<and>
   perform (RemoveAction event) this = remove_event event this \<and>
   undo (RemoveAction event) this = (True, snd (insert_event event this)) \<and>
   perform (ChangeAction eventBefore eventAfter) this =
     change_event eventBefore eventAfter this \<and>
   undo (ChangeAction eventBefore eventAfter) this =
     change_event eventAfter eventBefore this \<and>
   (sorted (map beat (midiEvents this)) \<longrightarrow>
      ((\<forall>x\<in>set (midiEvents this). eventId x \<noteq> eventId event \<and> beat x \<noteq> beat event) \<longrightarrow>
         fst (perform (InsertAction event) this) \<and>
         fst (undo (InsertAction event) (snd (perform (InsertAction event) this))) \<and>
         midiEvents (snd (undo (InsertAction event) (snd (perform (InsertAction event) this))))
           = midiEvents this) \<and>
      (event \<in> set (midiEvents this) \<and>
       (\<forall>x\<in>set (remove1 event (midiEvents this)).
          eventId x \<noteq> eventId event \<and> beat x \<noteq> beat event) \<longrightarrow>
         fst (perform (RemoveAction event) this) \<and>
         fst (undo (RemoveAction event) (snd (perform (RemoveAction event) this))) \<and>
         midiEvents (snd (undo (RemoveAction event) (snd (perform (RemoveAction event) this))))
           = midiEvents this) \<and>
      (eventBefore \<in> set (midiEvents this) \<and>
       (\<forall>x\<in>set (remove1 eventBefore (midiEvents this)).
          eventId x \<noteq> eventId eventBefore \<and> beat x \<noteq> beat eventBefore \<and>
          eventId x \<noteq> eventId eventAfter \<and> beat x \<noteq> beat eventAfter) \<longrightarrow>
         fst (perform (ChangeAction eventBefore eventAfter) this) \<and>
         fst (undo (ChangeAction eventBefore eventAfter)
                (snd (perform (ChangeAction eventBefore eventAfter) this))) \<and>
         midiEvents (snd (undo (ChangeAction eventBefore eventAfter)
                            (snd (perform (ChangeAction eventBefore eventAfter) this))))
           = midiEvents this))"
  using insert_then_remove_same [of this event]
    remove_then_insert_same [of this event]
    change_there_and_back_same [of this eventBefore eventAfter]
  by simp

theorem perform_undo_round_trip_witness:
  "sorted (map beat (midiEvents (holding [ts ''a'' 0 4 4, ts ''b'' 0 2 4, ts ''c'' 5 3 4] {}))) \<and>
   midiEvents (snd (undo (InsertAction (ts ''d'' 7 6 8))
     (snd (perform (InsertAction (ts ''d'' 7 6 8))
        (holding [ts ''a'' 0 4 4, ts ''b'' 0 2 4, ts ''c'' 5 3 4] {})))))
     = [ts ''a'' 0 4 4, ts ''b'' 0 2 4, ts ''c'' 5 3 4] \<and>
   ts ''c'' 5 3 4 \<in> set (midiEvents (holding [ts ''a'' 0 4 4, ts ''b'' 0 2 4, ts ''c'' 5 3 4] {})) \<and>
   remove1 (ts ''c'' 5 3 4) (midiEvents (holding [ts ''a'' 0 4 4, ts ''b'' 0 2 4, ts ''c'' 5 3 4] {}))
     = [ts ''a'' 0 4 4, ts ''b'' 0 2 4] \<and>
   midiEvents (snd (undo (RemoveAction (ts ''c'' 5 3 4))
     (snd (perform (RemoveAction (ts ''c'' 5 3 4))
        (holding [ts ''a'' 0 4 4, ts ''b'' 0 2 4, ts ''c'' 5 3 4] {})))))
     = [ts ''a'' 0 4 4, ts ''b'' 0 2 4, ts ''c'' 5 3 4] \<and>
   midiEvents (snd (undo (ChangeAction (ts ''c'' 5 3 4) (ts ''c'' 9 6 8))
     (snd (perform (ChangeAction (ts ''c'' 5 3 4) (ts ''c'' 9 6 8))
        (holding [ts ''a'' 0 4 4, ts ''b'' 0 2 4, ts ''c'' 5 3 4] {})))))
     = [ts ''a'' 0 4 4, ts ''b'' 0 2 4, ts ''c'' 5 3 4]"
  using
    perform_undo_round_trip [of "ts ''d'' 7 6 8"
      "holding [ts ''a'' 0 4 4, ts ''b'' 0 2 4, ts ''c'' 5 3 4] {}"
      "ts ''c'' 5 3 4" "ts ''c'' 9 6 8"]
    perform_undo_round_trip [of "ts ''c'' 5 3 4"
      "holding [ts ''a'' 0 4 4, ts ''b'' 0 2 4, ts ''c'' 5 3 4] {}"
      "ts ''c'' 5 3 4" "ts ''c'' 9 6 8"]
  by simp

text \<open>
  The claim as it is written, for every action on every sequence, fails, and each
  condition above is needed. In the order of the statement below: the undo of a change
  action whose before-event is not the stored event (another payload) stores the
  before-event; the undo of an insert on an occupied beat removes the event that sat
  there; the undo of an insert of a stored id removes the event that had the id; the
  undo of a remove, where another event shares the beat or the id of the removed one,
  brings back a second copy of the event in place of the other that perform took; the
  undo of a change onto an occupied beat, of a change of an event that shares its beat
  with another, of a change to the id of another stored event, and of a change of an
  event that shares its id with another, each changes the other event.
\<close>

theorem undo_does_not_restore:
  "fst (perform (ChangeAction (ts ''a'' 0 3 4) (ts ''a'' 0 6 8)) (holding [ts ''a'' 0 4 4] {})) \<and>
   midiEvents (snd (undo (ChangeAction (ts ''a'' 0 3 4) (ts ''a'' 0 6 8))
     (snd (perform (ChangeAction (ts ''a'' 0 3 4) (ts ''a'' 0 6 8)) (holding [ts ''a'' 0 4 4] {})))))
     = [ts ''a'' 0 3 4] \<and>
   fst (perform (InsertAction (ts ''b'' 0 3 4)) (holding [ts ''a'' 0 4 4] {})) \<and>
   midiEvents (snd (undo (InsertAction (ts ''b'' 0 3 4))
     (snd (perform (InsertAction (ts ''b'' 0 3 4)) (holding [ts ''a'' 0 4 4] {})))))
     = [ts ''b'' 0 3 4] \<and>
   midiEvents (snd (undo (InsertAction (ts ''a'' 0 4 4))
     (snd (perform (InsertAction (ts ''a'' 0 4 4)) (holding [ts ''a'' 5 4 4] {})))))
     = [ts ''a'' 0 4 4] \<and>
   fst (perform (RemoveAction (ts ''b'' 0 3 4)) (holding [ts ''a'' 0 4 4, ts ''b'' 0 3 4] {})) \<and>
   midiEvents (snd (undo (RemoveAction (ts ''b'' 0 3 4))
     (snd (perform (RemoveAction (ts ''b'' 0 3 4)) (holding [ts ''a'' 0 4 4, ts ''b'' 0 3 4] {})))))
     = [ts ''b'' 0 3 4, ts ''b'' 0 3 4] \<and>
   fst (perform (RemoveAction (ts ''a'' 5 3 4)) (holding [ts ''a'' 0 4 4, ts ''a'' 5 3 4] {})) \<and>
   midiEvents (snd (undo (RemoveAction (ts ''a'' 5 3 4))
     (snd (perform (RemoveAction (ts ''a'' 5 3 4)) (holding [ts ''a'' 0 4 4, ts ''a'' 5 3 4] {})))))
     = [ts ''a'' 5 3 4, ts ''a'' 5 3 4] \<and>
   fst (perform (ChangeAction (ts ''a'' 0 4 4) (ts ''a'' 8 4 4))
     (holding [ts ''a'' 0 4 4, ts ''c'' 8 3 4] {})) \<and>
   midiEvents (snd (undo (ChangeAction (ts ''a'' 0 4 4) (ts ''a'' 8 4 4))
     (snd (perform (ChangeAction (ts ''a'' 0 4 4) (ts ''a'' 8 4 4))
        (holding [ts ''a'' 0 4 4, ts ''c'' 8 3 4] {})))))
     = [ts ''c'' 0 4 4, ts ''a'' 8 4 4] \<and>
   fst (perform (ChangeAction (ts ''b'' 0 3 4) (ts ''b'' 3 3 4))
     (holding [ts ''a'' 0 4 4, ts ''b'' 0 3 4] {})) \<and>
   midiEvents (snd (undo (ChangeAction (ts ''b'' 0 3 4) (ts ''b'' 3 3 4))
     (snd (perform (ChangeAction (ts ''b'' 0 3 4) (ts ''b'' 3 3 4))
        (holding [ts ''a'' 0 4 4, ts ''b'' 0 3 4] {})))))
     = [ts ''b'' 0 3 4, ts ''a'' 3 3 4] \<and>
   fst (perform (ChangeAction (ts ''b'' 5 3 4) (ts ''x'' 7 3 4))
     (holding [ts ''x'' 1 4 4, ts ''b'' 5 3 4] {})) \<and>
   midiEvents (snd (undo (ChangeAction (ts ''b'' 5 3 4) (ts ''x'' 7 3 4))
     (snd (perform (ChangeAction (ts ''b'' 5 3 4) (ts ''x'' 7 3 4))
        (holding [ts ''x'' 1 4 4, ts ''b'' 5 3 4] {})))))
     = [ts ''x'' 5 3 4, ts ''b'' 7 3 4] \<and>
   fst (perform (ChangeAction (ts ''a'' 5 3 4) (ts ''a'' 7 3 4))
     (holding [ts ''a'' 0 4 4, ts ''a'' 5 3 4] {})) \<and>
   midiEvents (snd (undo (ChangeAction (ts ''a'' 5 3 4) (ts ''a'' 7 3 4))
     (snd (perform (ChangeAction (ts ''a'' 5 3 4) (ts ''a'' 7 3 4))
        (holding [ts ''a'' 0 4 4, ts ''a'' 5 3 4] {})))))
     = [ts ''a'' 7 3 4, ts ''a'' 5 3 4]"
  by code_simp

section \<open>Serialization and back\<close>

text \<open>
  C3. Let the record of every stored event carry the tag of an event and be read back
  as that event. Then \<open>serialize\<close> writes the records in the reverse of the order of the
  array, and \<open>deserialize\<close> of the result, into a sequence holding anything, leaves the
  stable sort by beat of the reversed array: the same multiset of events as the
  serialized sequence held, and their ids as the used ids. For a clip, whose record
  functions are in the source, \<open>deserialize\<close> of its own record restores the start beat
  and the id, provided the text of the start beat is read back as that number and the
  start beat is a float, as its type says.
\<close>

theorem serialize_deserialize_round_trip:
  "((\<forall>e\<in>set (midiEvents this).
       tagName (serializeEvent e) = Serialization_Core_timeSignature \<and>
       (\<forall>st. deserializeEvent st (serializeEvent e) = e)) \<longrightarrow>
      childElements (serialize serializeEvent this) = rev (map serializeEvent (midiEvents this)) \<and>
      midiEvents (deserialize deserializeEvent (serialize serializeEvent this) other) =
        sort_key beat (rev (midiEvents this)) \<and>
      mset (midiEvents (deserialize deserializeEvent (serialize serializeEvent this) other)) =
        mset (midiEvents this) \<and>
      usedEventIds (deserialize deserializeEvent (serialize serializeEvent this) other) =
        eventId ` set (midiEvents this)) \<and>
   (getDoubleValue (toText (startBeat clip)) = startBeat clip \<and>
    float_cast (startBeat clip) = startBeat clip \<longrightarrow>
      Clip_deserialize getDoubleValue (Clip_serialize toText clip) target =
        target\<lparr>startBeat := startBeat clip, id' := id' clip\<rparr>)"
proof (intro conjI impI)
  assume h: "\<forall>e\<in>set (midiEvents this).
       tagName (serializeEvent e) = Serialization_Core_timeSignature \<and>
       (\<forall>st. deserializeEvent st (serializeEvent e) = e)"
  then have h': "\<forall>e\<in>set (rev (midiEvents this)).
       tagName (serializeEvent e) = Serialization_Core_timeSignature \<and>
       (\<forall>st. deserializeEvent st (serializeEvent e) = e)"
    by simp
  show "childElements (serialize serializeEvent this) = rev (map serializeEvent (midiEvents this))"
    by (simp add: serialize_children)
  have loop: "deserialize_loop deserializeEvent (map serializeEvent (rev (midiEvents this)))
      (reset other) =
      (reset other)\<lparr>midiEvents := midiEvents (reset other) @ rev (midiEvents this),
        usedEventIds := usedEventIds (reset other) \<union> eventId ` set (rev (midiEvents this))\<rparr>"
    by (rule deserialize_loop_reads [OF h'])
  have r: "midiEvents (reset other) = []" "usedEventIds (reset other) = {}"
    by (simp_all add: reset_def)
  show m: "midiEvents (deserialize deserializeEvent (serialize serializeEvent this) other) =
        sort_key beat (rev (midiEvents this))"
    by (simp add: deserialize_def serialize_children Let_def rev_map loop r sort_events_def)
  show "mset (midiEvents (deserialize deserializeEvent (serialize serializeEvent this) other)) =
        mset (midiEvents this)"
    unfolding m by simp
  show "usedEventIds (deserialize deserializeEvent (serialize serializeEvent this) other) =
        eventId ` set (midiEvents this)"
    by (simp add: deserialize_def serialize_children Let_def rev_map loop r sort_events_def)
next
  assume "getDoubleValue (toText (startBeat clip)) = startBeat clip \<and>
    float_cast (startBeat clip) = startBeat clip"
  then show "Clip_deserialize getDoubleValue (Clip_serialize toText clip) target =
        target\<lparr>startBeat := startBeat clip, id' := id' clip\<rparr>"
    by (simp add: Clip_deserialize_def Clip_serialize_def setAttribute_def
        getDoubleAttribute_def getStringAttribute_def)
qed

theorem serialize_deserialize_round_trip_witness:
  "tagName ((\<lambda>e. XmlElement ''timeSignature'' [(''id'', eventId e)] []) (ts ''b'' 0 3 4)) =
     Serialization_Core_timeSignature \<and>
   tagName ((\<lambda>e. XmlElement ''timeSignature'' [(''id'', eventId e)] []) (ts ''a'' 8 4 4)) =
     Serialization_Core_timeSignature \<and>
   midiEvents (deserialize
       (\<lambda>st x. if getStringAttribute x ''id'' [] = ''a'' then ts ''a'' 8 4 4 else ts ''b'' 0 3 4)
       (serialize (\<lambda>e. XmlElement ''timeSignature'' [(''id'', eventId e)] [])
          (holding [ts ''b'' 0 3 4, ts ''a'' 8 4 4] {}))
       (holding [ts ''q'' 1 2 2] {''q''})) = [ts ''b'' 0 3 4, ts ''a'' 8 4 4] \<and>
   usedEventIds (deserialize
       (\<lambda>st x. if getStringAttribute x ''id'' [] = ''a'' then ts ''a'' 8 4 4 else ts ''b'' 0 3 4)
       (serialize (\<lambda>e. XmlElement ''timeSignature'' [(''id'', eventId e)] [])
          (holding [ts ''b'' 0 3 4, ts ''a'' 8 4 4] {}))
       (holding [ts ''q'' 1 2 2] {''q''})) = {''a'', ''b''} \<and>
   Clip_deserialize (\<lambda>text. if text = ''4.0'' then 4 else 0)
       (Clip_serialize (\<lambda>r. if r = 4 then ''4.0'' else ''0'')
          \<lparr>pattern = None, startBeat = 4, id' = ''k''\<rparr>)
       \<lparr>pattern = Some 1, startBeat = 0, id' = []\<rparr> =
     \<lparr>pattern = Some 1, startBeat = 4, id' = ''k''\<rparr>"
  using serialize_deserialize_round_trip [of "holding [ts ''b'' 0 3 4, ts ''a'' 8 4 4] {}"
      "\<lambda>e. XmlElement ''timeSignature'' [(''id'', eventId e)] []"
      "\<lambda>st x. if getStringAttribute x ''id'' [] = ''a'' then ts ''a'' 8 4 4 else ts ''b'' 0 3 4"
      "holding [ts ''q'' 1 2 2] {''q''}"
      "\<lambda>text. if text = ''4.0'' then 4 else 0" "\<lambda>r. if r = 4 then ''4.0'' else ''0''"
      "\<lparr>pattern = None, startBeat = 4, id' = ''k''\<rparr>" "\<lparr>pattern = Some 1, startBeat = 0, id' = []\<rparr>"]
    float_cast_4
  by (simp add: Serialization_Core_timeSignature_def getStringAttribute_def insert_commute)

end
